theory Spec2Isabelle
  imports Main
begin

section \<open>Python values the program relies on\<close>

text \<open>
  The launch coordinates of a recipe, the dictionary \<open>parseScriptToLaunch\<close> returns.
  A coordinate is \<open>None\<close> or an integer, as the entries of \<open>option_split_num\<close> are.
\<close>

record script_coords =
  name :: string
  skeleton :: "int option"
  script :: "int option"

text \<open>Exceptions are values: \<open>Inl\<close> of an \<open>error\<close> is a raise that nobody caught.\<close>

datatype error =
    ValueError
  | IndexError
  | KeyError
  | TypeError
  | RecursionError
  | UnboundLocalError
  | ScriptNotFoundError script_coords

text \<open>\<open>xs[i]\<close>: a negative index counts from the end, out of range raises \<open>IndexError\<close>.\<close>

definition py_get :: "'a list \<Rightarrow> int \<Rightarrow> error + 'a" where
  "py_get xs i =
     (if 0 \<le> i \<and> i < int (length xs) then Inr (xs ! nat i)
      else if i < 0 \<and> - int (length xs) \<le> i then Inr (xs ! nat (int (length xs) + i))
      else Inl IndexError)"

text \<open>\<open>max(xs)\<close> of a list of indices: the empty list raises \<open>ValueError\<close>.\<close>

fun py_max :: "nat list \<Rightarrow> error + nat" where
  "py_max [] = Inl ValueError"
| "py_max (x # xs) = Inr (fold max xs x)"

text \<open>\<open>sep.join(xs)\<close> for a one-character separator.\<close>

fun join :: "char \<Rightarrow> string list \<Rightarrow> string" where
  "join sep [] = []"
| "join sep [x] = x"
| "join sep (x # y # ys) = x @ sep # join sep (y # ys)"

text \<open>
  \<open>s.rsplit(sep, maxsplit)\<close> for a one-character separator: the string is cut at its
  last separator, at most \<open>maxsplit\<close> times, and the pieces are listed from the left.
\<close>

definition before_last :: "char \<Rightarrow> string \<Rightarrow> string" where
  "before_last sep s = rev (tl (dropWhile (\<lambda>c. c \<noteq> sep) (rev s)))"

definition after_last :: "char \<Rightarrow> string \<Rightarrow> string" where
  "after_last sep s = rev (takeWhile (\<lambda>c. c \<noteq> sep) (rev s))"

fun rsplit :: "char \<Rightarrow> nat \<Rightarrow> string \<Rightarrow> string list" where
  "rsplit sep 0 s = [s]"
| "rsplit sep (Suc n) s =
     (if sep \<in> set s then rsplit sep n (before_last sep s) @ [after_last sep s] else [s])"

section \<open>The launch option (\<open>Maker.parseScriptToLaunch\<close>)\<close>

text \<open>
  Modelled from the spec: \<open>string.intOrNone\<close>, whose module is not among the sources.
  The spec says that each piece is "parsed as an integer": here a piece is an integer when
  it is an optional sign followed by one or more decimal digits. \<open>parseScriptToLaunch\<close>
  below takes the helper as a parameter, so that what is proved of it holds for any helper.
\<close>

definition is_digit :: "char \<Rightarrow> bool" where
  "is_digit c = (c \<in> set ''0123456789'')"

definition digit_value :: "char \<Rightarrow> nat" where
  "digit_value c = of_char c - of_char CHR ''0''"

definition digits_value :: "string \<Rightarrow> nat" where
  "digits_value ds = foldl (\<lambda>acc c. 10 * acc + digit_value c) 0 ds"

definition intOrNone :: "string \<Rightarrow> int option" where
  "intOrNone s =
     (let (negative, ds) =
            (case s of
               c # r \<Rightarrow> if c = CHR ''-'' then (True, r) else if c = CHR ''+'' then (False, r) else (False, s)
             | [] \<Rightarrow> (False, s))
      in if ds \<noteq> [] \<and> list_all is_digit ds
         then Some (if negative then - int (digits_value ds) else int (digits_value ds))
         else None)"

text \<open>
  \<open>Maker.parseScriptToLaunch\<close> (the same text in both versions of \<open>maker.py\<close>):
  \<^verbatim>\<open>
  option_split = launch_option.rsplit(':', maxsplit = 2)
  option_split_num = [string.intOrNone(s) for s in option_split]
  cut = max([k for k, n in enumerate(option_split_num) if n is None]) + 1
  coords = option_split_num[cut:]
  coords += [-1] * (2 - len(coords))
  return {'name': ':'.join(option_split[:cut]), 'skeleton': coords[0], 'script': coords[1]}
  \<close>
\<close>

definition parseScriptToLaunch :: "(string \<Rightarrow> int option) \<Rightarrow> string \<Rightarrow> error + script_coords" where
  "parseScriptToLaunch int_or_none launch_option =
     (let option_split = rsplit CHR '':'' 2 launch_option;
          option_split_num = map int_or_none option_split
      in case py_max [k. (k, n) \<leftarrow> enumerate 0 option_split_num, n = None] of
           Inl e \<Rightarrow> Inl e
         | Inr m \<Rightarrow>
             (let cut = m + 1;
                  coords = drop cut option_split_num;
                  coords = coords @ replicate (nat (2 - int (length coords))) (Some (- 1))
              in case py_get coords 0 of
                   Inl e \<Rightarrow> Inl e
                 | Inr c0 \<Rightarrow>
                     (case py_get coords 1 of
                        Inl e \<Rightarrow> Inl e
                      | Inr c1 \<Rightarrow>
                          Inr \<lparr>name = join CHR '':'' (take cut option_split),
                               skeleton = c0, script = c1\<rparr>)))"

section \<open>The orchestration loop (\<open>Maker\<close>, \<open>src/hateno/maker.py\<close>)\<close>

text \<open>
  The events \<open>_triggerEvent\<close> is called with, each with the arguments the caller passes.
  The model records the sequence of triggered events; the listeners are the UI's.
\<close>

type_synonym job_id = string

text \<open>
  The dictionary \<open>jobs_by_state\<close> of \<open>waitForJobs\<close>: for each of the four states, the list
  \<open>JobsManager.getJobsWithStates\<close> returned.
\<close>

record jobs_by_state =
  waiting :: "job_id list"
  running :: "job_id list"
  succeed :: "job_id list"
  failed :: "job_id list"

datatype 's event =
    CloseStart | CloseEnd
  | RemoteOpenStart | RemoteOpenEnd
  | DeleteScripts
  | RunStart | RunEnd "'s list"
  | ExtractStart "'s list" | ExtractProgress | ExtractEnd
  | GenerateStart | GenerateEnd
  | WaitStart "job_id list" | WaitProgress jobs_by_state | WaitEnd
  | DownloadStart "'s list" | DownloadProgress | DownloadEnd
  | AdditionStart "'s list" | AdditionProgress | AdditionEnd

text \<open>
  The fields of a \<open>Maker\<close> that the loop reads and writes. \<open>remote_folder_open\<close> says
  that \<open>_remote_folder_instance\<close> is set; \<open>events\<close> is the sequence of events triggered
  so far. \<open>'s\<close> is the type of a simulation, which the loop only passes on.
\<close>

record 's maker =
  max_corrupted :: int
  corruptions_counter :: int
  max_failures :: int
  failures_counter :: int
  remote_folder_open :: bool
  events :: "'s event list"

record recipe =
  launch :: string
  subgroups_skeletons :: "string list"
  wholegroup_skeletons :: "string list"

record script_desc =
  localpath :: string
  finalpath :: string

text \<open>
  What the collaborators outside the sources answer during one round of the loop, each
  as a function of the arguments \<open>Maker\<close> calls it with:
  \<^item> \<open>batchExtract\<close>: \<open>Manager.batchExtract(simulations)\<close>, the simulations that do not exist
    yet, and \<open>extract_callbacks\<close>, how often it calls the progress callback;
  \<^item> \<open>generate\<close>: \<open>Generator.generate\<close> for the simulations added, a list (one entry per
    skeleton) of lists of scripts;
  \<^item> \<open>execute\<close>: the lines \<open>RemoteFolder.execute(finalpath)\<close> prints, each stripped;
  \<^item> \<open>job_states\<close>: what the \<open>JobsManager\<close> reports at the n-th poll of \<open>waitForJobs\<close>;
  \<^item> \<open>batchAdd\<close>: \<open>Manager.batchAdd(simulations)\<close>, and \<open>addition_callbacks\<close>, how often it
    calls the progress callback.
  Modelled from the spec: \<open>Manager.batchAdd\<close> "reports how many it rejected", a number;
  the loop only tests whether it is zero.
\<close>

record 's round =
  batchExtract :: "'s list \<Rightarrow> 's list"
  extract_callbacks :: nat
  generate :: "'s list \<Rightarrow> script_desc list list"
  execute :: "string \<Rightarrow> job_id list"
  job_states :: "nat \<Rightarrow> jobs_by_state"
  batchAdd :: "'s list \<Rightarrow> nat"
  addition_callbacks :: nat

definition triggerEvent :: "'s event \<Rightarrow> 's maker \<Rightarrow> 's maker" where
  "triggerEvent e m = m\<lparr>events := events m @ [e]\<rparr>"

text \<open>
  The property \<open>_remote_folder\<close>: the first access creates the instance and opens it
  between the events \<open>remote-open-start\<close> and \<open>remote-open-end\<close>.
\<close>

definition remote_folder :: "'s maker \<Rightarrow> 's maker" where
  "remote_folder m =
     (if remote_folder_open m then m
      else triggerEvent RemoteOpenEnd (triggerEvent RemoteOpenStart (m\<lparr>remote_folder_open := True\<rparr>)))"

definition extractSimulations :: "'s round \<Rightarrow> 's list \<Rightarrow> 's maker \<Rightarrow> 's list \<times> 's maker" where
  "extractSimulations r simulations m =
     (let m1 = triggerEvent (ExtractStart simulations) m;
          unknown_simulations = batchExtract r simulations;
          m2 = (triggerEvent ExtractProgress ^^ extract_callbacks r) m1
      in (unknown_simulations, triggerEvent ExtractEnd m2))"

text \<open>
  The script to launch: \<open>generated_scripts[possible_skeletons_to_launch[skeleton]][script]\<close>,
  where an \<open>IndexError\<close> becomes \<open>ScriptNotFoundError(script_coords)\<close>. An index that is
  \<open>None\<close> is a \<open>TypeError\<close>, which nothing catches.
\<close>

definition script_to_launch ::
  "nat list \<Rightarrow> script_desc list list \<Rightarrow> script_coords \<Rightarrow> error + script_desc" where
  "script_to_launch possible_skeletons_to_launch generated_scripts coords =
     (case skeleton coords of
        None \<Rightarrow> Inl TypeError
      | Some i \<Rightarrow>
          (case py_get possible_skeletons_to_launch i of
             Inl e \<Rightarrow> Inl (ScriptNotFoundError coords)
           | Inr k \<Rightarrow>
               (case py_get generated_scripts (int k) of
                  Inl e \<Rightarrow> Inl (ScriptNotFoundError coords)
                | Inr scripts \<Rightarrow>
                    (case script coords of
                       None \<Rightarrow> Inl TypeError
                     | Some j \<Rightarrow>
                         (case py_get scripts j of
                            Inl e \<Rightarrow> Inl (ScriptNotFoundError coords)
                          | Inr s \<Rightarrow> Inr s)))))"

text \<open>
  \<open>generateSimulations\<close>. The scratch directory, \<open>recipe['basedir']\<close>, the mode of the
  script file and the two uploads are effects on the file system and the remote folder;
  of them the model keeps the accesses to \<open>_remote_folder\<close>.
\<close>

definition generateSimulations ::
  "'s round \<Rightarrow> 's list \<Rightarrow> recipe \<Rightarrow> script_coords \<Rightarrow> 's maker \<Rightarrow> error + (job_id list \<times> 's maker)" where
  "generateSimulations r simulations rec coords m =
     (let m1 = remote_folder (triggerEvent GenerateStart m);
          generated_scripts = generate r simulations;
          possible_skeletons_to_launch =
            [k. (k, s) \<leftarrow> enumerate 0 (subgroups_skeletons rec @ wholegroup_skeletons rec),
                s = name coords]
      in case script_to_launch possible_skeletons_to_launch generated_scripts coords of
           Inl e \<Rightarrow> Inl e
         | Inr to_launch \<Rightarrow>
             (let m2 = remote_folder m1;
                  jobs_ids = execute r (finalpath to_launch)
              in Inr (jobs_ids, triggerEvent GenerateEnd (remote_folder m2))))"

text \<open>
  The polling loop of \<open>waitForJobs\<close>:
  \<^verbatim>\<open>
  while True:
      self._jobs_manager.updateFromFile()
      jobs_by_state = {state: self._jobs_manager.getJobsWithStates(...) for state in [...]}
      if jobs_by_state != previous_states:
          self._triggerEvent('wait-progress', jobs_by_state)
          if set(jobs_by_state['succeed'] + jobs_by_state['failed']) == set(jobs_ids):
              break
      previous_states = jobs_by_state
      time.sleep(0.5)
  \<close>
  \<open>n\<close> counts the polls; \<open>previous_states\<close> is \<open>None\<close> for the empty dictionary the loop
  starts with, which differs from every \<open>jobs_by_state\<close>. The loop has no bound: where it
  never leaves, the value is \<open>None\<close>.
\<close>

partial_function (option) wait_loop ::
  "(nat \<Rightarrow> jobs_by_state) \<Rightarrow> job_id list \<Rightarrow> nat \<Rightarrow> jobs_by_state option \<Rightarrow> 's maker
     \<Rightarrow> (jobs_by_state \<times> 's maker) option" where
  "wait_loop states jobs_ids n previous_states m =
     (if Some (states n) \<noteq> previous_states then
        (if set (succeed (states n) @ failed (states n)) = set jobs_ids
         then Some (states n, triggerEvent (WaitProgress (states n)) m)
         else wait_loop states jobs_ids (Suc n) (Some (states n))
                (triggerEvent (WaitProgress (states n)) m))
      else wait_loop states jobs_ids (Suc n) (Some (states n)) m)"

definition waitForJobs ::
  "(nat \<Rightarrow> jobs_by_state) \<Rightarrow> job_id list \<Rightarrow> 's maker \<Rightarrow> (bool \<times> 's maker) option" where
  "waitForJobs states jobs_ids m =
     (case wait_loop states jobs_ids 0 None (remote_folder (triggerEvent (WaitStart jobs_ids) m)) of
        None \<Rightarrow> None
      | Some (jobs_by_state, m1) \<Rightarrow> Some (failed jobs_by_state = [], triggerEvent WaitEnd m1))"

text \<open>
  \<open>downloadSimulations\<close>: one download (a missing remote folder is passed over) and one
  \<open>download-progress\<close> per simulation, then \<open>Manager.batchAdd\<close>. A simulation whose folder
  was rebound is the same simulation to the model.
\<close>

definition downloadSimulations :: "'s round \<Rightarrow> 's list \<Rightarrow> 's maker \<Rightarrow> bool \<times> 's maker" where
  "downloadSimulations r simulations m =
     (let m1 = triggerEvent (DownloadStart simulations) m;
          m2 = fold (\<lambda>simulation m. triggerEvent DownloadProgress (remote_folder m)) simulations m1;
          simulations_to_add = simulations;
          m3 = triggerEvent (AdditionStart simulations_to_add) (triggerEvent DownloadEnd m2);
          failed_to_add = batchAdd r simulations_to_add;
          m4 = (triggerEvent AdditionProgress ^^ addition_callbacks r) m3
      in (failed_to_add = 0, triggerEvent AdditionEnd m4))"

text \<open>The condition of the \<open>while\<close> loop of \<open>run\<close>.\<close>

definition loop_condition :: "'s maker \<Rightarrow> bool" where
  "loop_condition m \<longleftrightarrow>
     (max_corrupted m < 0 \<or> corruptions_counter m \<le> max_corrupted m) \<and>
     (max_failures m < 0 \<or> failures_counter m \<le> max_failures m)"

text \<open>
  The loop of \<open>run\<close>:
  \<^verbatim>\<open>
  while (...):
      unknown_simulations = self.extractSimulations(simulations)
      if not(unknown_simulations):
          break
      jobs_ids = self.generateSimulations(unknown_simulations, generator_recipe, script_coords)
      success = self.waitForJobs(jobs_ids, generator_recipe)
      if not(success):
          self._failures_counter += 1
      success = self.downloadSimulations(unknown_simulations)
      if not(success):
          self._corruptions_counter += 1
      self._triggerEvent('delete-scripts')
      self._remote_folder.deleteRemote([generator_recipe['basedir']])
  \<close>
  \<open>k\<close> counts the rounds completed and selects what the collaborators answer in the
  current one (\<open>env k\<close>); \<open>unknown\<close> is the variable \<open>unknown_simulations\<close>, \<open>None\<close> while
  it is unbound. The result is the variable, the number of rounds completed and the maker.
\<close>

partial_function (option) run_loop ::
  "(nat \<Rightarrow> 's round) \<Rightarrow> 's list \<Rightarrow> recipe \<Rightarrow> script_coords \<Rightarrow> nat \<Rightarrow> 's list option \<Rightarrow> 's maker
     \<Rightarrow> (error + ('s list option \<times> nat \<times> 's maker)) option" where
  "run_loop env simulations rec coords k unknown m =
     (if loop_condition m then
        (case extractSimulations (env k) simulations m of
           (unknown_simulations, m1) \<Rightarrow>
             if unknown_simulations = [] then Some (Inr (Some unknown_simulations, k, m1))
             else
               (case generateSimulations (env k) unknown_simulations rec coords m1 of
                  Inl e \<Rightarrow> Some (Inl e)
                | Inr (jobs_ids, m2) \<Rightarrow>
                    (case waitForJobs (job_states (env k)) jobs_ids m2 of
                       None \<Rightarrow> None
                     | Some (success, m3) \<Rightarrow>
                         (case downloadSimulations (env k) unknown_simulations
                                 (if \<not> success
                                  then m3\<lparr>failures_counter := failures_counter m3 + 1\<rparr>
                                  else m3) of
                            (success', m4) \<Rightarrow>
                              run_loop env simulations rec coords (Suc k) (Some unknown_simulations)
                                (remote_folder
                                  (triggerEvent DeleteScripts
                                    (if \<not> success'
                                     then m4\<lparr>corruptions_counter := corruptions_counter m4 + 1\<rparr>
                                     else m4)))))))
      else Some (Inr (unknown, k, m)))"

text \<open>
  \<open>run\<close>: the launch option is parsed once, both counters are reset, the loop runs, and
  the variable \<open>unknown_simulations\<close> is passed to \<open>run-end\<close> and returned (reading it
  unbound would be an \<open>UnboundLocalError\<close>). \<open>None\<close>: the call does not return.
\<close>

definition run ::
  "(string \<Rightarrow> int option) \<Rightarrow> (nat \<Rightarrow> 's round) \<Rightarrow> 's list \<Rightarrow> recipe \<Rightarrow> 's maker
     \<Rightarrow> (error + ('s list \<times> 's maker)) option" where
  "run int_or_none env simulations generator_recipe m =
     (case parseScriptToLaunch int_or_none (launch generator_recipe) of
        Inl e \<Rightarrow> Some (Inl e)
      | Inr coords \<Rightarrow>
          (case run_loop env simulations generator_recipe coords 0 None
                  ((triggerEvent RunStart m)\<lparr>corruptions_counter := 0, failures_counter := 0\<rparr>) of
             None \<Rightarrow> None
           | Some (Inl e) \<Rightarrow> Some (Inl e)
           | Some (Inr (None, k, m1)) \<Rightarrow> Some (Inl UnboundLocalError)
           | Some (Inr (Some unknown_simulations, k, m1)) \<Rightarrow>
               Some (Inr (unknown_simulations, triggerEvent (RunEnd unknown_simulations) m1))))"

section \<open>Settings of a simulation (\<open>Simulation\<close>, \<open>manager/simulation.py\<close>)\<close>

text \<open>
  The value of a setting is any value a settings file can hold. The program stores such a
  value, copies it, tests whether it is a string and turns it into text with \<open>str\<close>; it
  does no arithmetic. A float is therefore kept as its \<open>repr\<close> (\<open>VFloat ''3.14''\<close>), and
  any other object (a list, a dictionary) as the text \<open>str\<close> gives for it. Values are
  immutable here, so a deep copy of a value is the value.
\<close>

datatype pyvalue =
    VStr string
  | VInt int
  | VBool bool
  | VNone
  | VFloat string
  | VOther string

definition digit_char :: "nat \<Rightarrow> char" where
  "digit_char d = ''0123456789'' ! (d mod 10)"

function str_nat :: "nat \<Rightarrow> string" where
  "str_nat n = (if n < 10 then [digit_char n] else str_nat (n div 10) @ [digit_char n])"
  by pat_completeness auto
termination
  by (relation "measure id") auto

definition str_int :: "int \<Rightarrow> string" where
  "str_int i = (if i < 0 then CHR ''-'' # str_nat (nat (- i)) else str_nat (nat i))"

text \<open>\<open>str(v)\<close>.\<close>

fun py_str :: "pyvalue \<Rightarrow> string" where
  "py_str (VStr s) = s"
| "py_str (VInt i) = str_int i"
| "py_str (VBool b) = (if b then ''True'' else ''False'')"
| "py_str VNone = ''None''"
| "py_str (VFloat r) = r"
| "py_str (VOther t) = t"

subsection \<open>Tags\<close>

text \<open>
  The regular expression of \<open>_setting_tag_regex\<close>,
  \<^verbatim>\<open>\{(?P<category>(?:global)?setting):(?P<name>[^}]+)\}\<close>:
  an opening brace, the category, a colon, a name of one or more characters other than
  the closing brace, and the closing brace. \<open>match_tag s\<close> is the match of the expression
  at the start of \<open>s\<close>: the category, the name and what follows the tag. The expression has
  at most one match at a position, since the name ends at the first closing brace.
\<close>

datatype category = Setting | GlobalSetting

fun category_name :: "category \<Rightarrow> string" where
  "category_name Setting = ''setting''"
| "category_name GlobalSetting = ''globalsetting''"

definition tag_text :: "category \<Rightarrow> string \<Rightarrow> string" where
  "tag_text cat nm = CHR ''{'' # category_name cat @ CHR '':'' # nm @ ''}''"

definition strip_prefix :: "string \<Rightarrow> string \<Rightarrow> string option" where
  "strip_prefix p s = (if take (length p) s = p then Some (drop (length p) s) else None)"

definition name_and_rest :: "string \<Rightarrow> (string \<times> string) option" where
  "name_and_rest body =
     (case dropWhile (\<lambda>c. c \<noteq> CHR ''}'') body of
        [] \<Rightarrow> None
      | brace # rest \<Rightarrow>
          if takeWhile (\<lambda>c. c \<noteq> CHR ''}'') body = [] then None
          else Some (takeWhile (\<lambda>c. c \<noteq> CHR ''}'') body, rest))"

definition match_tag :: "string \<Rightarrow> (category \<times> string \<times> string) option" where
  "match_tag s =
     (case strip_prefix ''{globalsetting:'' s of
        Some body \<Rightarrow> map_option (\<lambda>(nm, rest). (GlobalSetting, nm, rest)) (name_and_rest body)
      | None \<Rightarrow>
          (case strip_prefix ''{setting:'' s of
             Some body \<Rightarrow> map_option (\<lambda>(nm, rest). (Setting, nm, rest)) (name_and_rest body)
           | None \<Rightarrow> None))"

text \<open>\<open>fullmatch(s)\<close>: the tag at the start of \<open>s\<close> is all of \<open>s\<close>.\<close>

definition fullmatch :: "string \<Rightarrow> (category \<times> string) option" where
  "fullmatch s =
     (case match_tag s of
        Some (cat, nm, rest) \<Rightarrow> if rest = [] then Some (cat, nm) else None
      | None \<Rightarrow> None)"

lemma name_and_rest_shorter: "name_and_rest body = Some (nm, rest) \<Longrightarrow> length rest < length body"
proof -
  assume a: "name_and_rest body = Some (nm, rest)"
  have "length (dropWhile (\<lambda>c. c \<noteq> CHR ''}'') body) \<le> length body" by (rule length_dropWhile_le)
  then show ?thesis using a by (auto simp: name_and_rest_def split: list.splits if_splits)
qed

lemma match_tag_shorter: "match_tag s = Some (cat, nm, rest) \<Longrightarrow> length rest < length s"
  by (auto simp: match_tag_def strip_prefix_def split: option.splits if_splits
        dest!: name_and_rest_shorter)

text \<open>
  One pass of the loop over \<open>finditer(s)\<close>: the text between the tags is kept, a tag whose
  name is in the dictionary of its category is replaced by \<open>str\<close> of the value, any other
  tag is kept as it is. The search goes on after the tag.
\<close>

function substitute :: "(category \<Rightarrow> string \<Rightarrow> pyvalue option) \<Rightarrow> string \<Rightarrow> string" where
  "substitute dicts [] = []"
| "substitute dicts (c # cs) =
     (case match_tag (c # cs) of
        Some (cat, nm, rest) \<Rightarrow>
          (case dicts cat nm of Some v \<Rightarrow> py_str v | None \<Rightarrow> tag_text cat nm)
            @ substitute dicts rest
      | None \<Rightarrow> c # substitute dicts cs)"
  by pat_completeness auto
termination
  by (relation "measure (\<lambda>(dicts, s). length s)") (auto dest: match_tag_shorter)

subsection \<open>The folder's declarations, the user's settings, the simulation\<close>

text \<open>
  A setting of a simulation, the dictionary with the keys \<open>name\<close>, \<open>value\<close>, \<open>exclude\<close> and
  \<open>pattern\<close>; a global setting has the keys \<open>name\<close> and \<open>value\<close>. The fields carry a prefix
  because the keys are shared between the dictionaries.
\<close>

record setting =
  s_name :: string
  s_value :: pyvalue
  s_exclude :: bool
  s_pattern :: string

record global_setting =
  g_name :: string
  g_value :: pyvalue

text \<open>
  The declarations of the folder (\<open>self._folder.settings\<close>): a global setting has a name
  and a default; a setting has a name, a default and, optionally, \<open>exclude\<close> and \<open>pattern\<close>;
  a set of settings has the name \<open>set\<close>, the flag \<open>required\<close> and its settings.
\<close>

record global_declaration =
  gd_name :: string
  gd_default :: pyvalue

record setting_declaration =
  sd_name :: string
  sd_default :: pyvalue
  sd_exclude :: "bool option"
  sd_pattern :: "string option"

record set_declaration =
  set_name :: string
  required :: bool
  set_settings :: "setting_declaration list"

record folder_settings =
  setting_pattern :: string
  globalsettings :: "global_declaration list"
  settings :: "set_declaration list"

text \<open>
  The settings of the user (\<open>self._user_settings\<close>): values of global settings by name, and
  under \<open>settings\<close> a list of sets of values, each with the name of its set (\<open>set\<close>) and a
  dictionary from names to values (\<open>settings\<close>).
\<close>

record values_set =
  vs_set :: string
  vs_settings :: "string \<rightharpoonup> pyvalue"

record user_settings =
  user_globals :: "string \<rightharpoonup> pyvalue"
  user_sets :: "values_set list"

text \<open>
  The state of a \<open>Simulation\<close>: \<open>raw_globalsettings\<close> and \<open>raw_settings\<close> are \<open>None\<close> until
  they are generated; \<open>parser_recursion_stack\<close> is the list \<open>parseString\<close> keeps on the
  object.
\<close>

record simulation =
  folder :: folder_settings
  user :: user_settings
  raw_globalsettings :: "global_setting list option"
  raw_settings :: "setting list list option"
  parser_recursion_stack :: "string list"

subsection \<open>What \<open>generateSettings\<close> and \<open>generateGlobalSettings\<close> build\<close>

text \<open>
  \<^verbatim>\<open>
  default_settings = [{'name': s['name'], 'value': s['default'],
                       'exclude': 'exclude' in s and s['exclude'],
                       'pattern': s['pattern'] if 'pattern' in s else default_pattern}
                      for s in settings_set['settings']]
  \<close>
\<close>

definition default_settings :: "string \<Rightarrow> set_declaration \<Rightarrow> setting list" where
  "default_settings default_pattern settings_set =
     map (\<lambda>s. \<lparr>s_name = sd_name s, s_value = sd_default s,
               s_exclude = (case sd_exclude s of None \<Rightarrow> False | Some b \<Rightarrow> b),
               s_pattern = (case sd_pattern s of None \<Rightarrow> default_pattern | Some p \<Rightarrow> p)\<rparr>)
         (set_settings settings_set)"

text \<open>
  \<^verbatim>\<open>
  values_sets = [s['settings'] for s in self._user_settings['settings']
                 if s['set'] == settings_set['set']]
  \<close>
\<close>

definition values_sets :: "user_settings \<Rightarrow> set_declaration \<Rightarrow> (string \<rightharpoonup> pyvalue) list" where
  "values_sets u settings_set =
     map vs_settings (filter (\<lambda>s. vs_set s = set_name settings_set) (user_sets u))"

text \<open>
  \<^verbatim>\<open>
  set_to_add = copy.deepcopy(default_settings)
  for setting in set_to_add:
      try:
          setting['value'] = values_set[setting['name']]
      except KeyError:
          pass
  \<close>
\<close>

definition set_to_add :: "setting list \<Rightarrow> (string \<rightharpoonup> pyvalue) \<Rightarrow> setting list" where
  "set_to_add defaults values_set =
     map (\<lambda>setting. case values_set (s_name setting) of
                       Some v \<Rightarrow> setting\<lparr>s_value := v\<rparr>
                     | None \<Rightarrow> setting)
         defaults"

text \<open>What one pass of the loop over the declared sets appends to \<open>_raw_settings\<close>.\<close>

definition append_set :: "string \<Rightarrow> user_settings \<Rightarrow> set_declaration \<Rightarrow> setting list list \<Rightarrow> setting list list" where
  "append_set default_pattern u settings_set raw =
     (if values_sets u settings_set \<noteq> []
      then fold (\<lambda>values_set raw. raw @ [set_to_add (default_settings default_pattern settings_set) values_set])
             (values_sets u settings_set) raw
      else if required settings_set
      then raw @ [default_settings default_pattern settings_set]
      else raw)"

text \<open>\<open>_raw_settings\<close> at the end of the loop of \<open>generateSettings\<close>, before \<open>parseSettings\<close>.\<close>

definition generated_sets :: "folder_settings \<Rightarrow> user_settings \<Rightarrow> setting list list" where
  "generated_sets f u = fold (append_set (setting_pattern f) u) (settings f) []"

text \<open>\<open>_raw_globalsettings\<close> at the end of the loop of \<open>generateGlobalSettings\<close>.\<close>

definition generated_globals :: "folder_settings \<Rightarrow> user_settings \<Rightarrow> global_setting list" where
  "generated_globals f u =
     fold (\<lambda>setting raw. raw @ [\<lparr>g_name = gd_name setting,
                                 g_value = (case user_globals u (gd_name setting) of
                                              Some v \<Rightarrow> v
                                            | None \<Rightarrow> gd_default setting)\<rparr>])
          (globalsettings f) []"

subsection \<open>The views\<close>

text \<open>
  \<open>{s['name']: s['value'] for s in settings_set if not(s['exclude'])}\<close>: a later setting
  of the same name replaces an earlier one.
\<close>

definition settings_dict :: "setting list \<Rightarrow> (string \<rightharpoonup> pyvalue)" where
  "settings_dict settings_set =
     fold (\<lambda>s d. if s_exclude s then d else d(s_name s \<mapsto> s_value s)) settings_set Map.empty"

text \<open>
  \<open>functools.reduce(lambda a, b: {**a, **b}, dicts)\<close>: without an initial value, the empty
  list is a \<open>TypeError\<close>.
\<close>

fun reduce_dicts :: "(string \<rightharpoonup> pyvalue) list \<Rightarrow> error + (string \<rightharpoonup> pyvalue)" where
  "reduce_dicts [] = Inl TypeError"
| "reduce_dicts (d # ds) = Inr (foldl (++) d ds)"

text \<open>\<open>{setting['name']: setting['value'] for setting in self._globalsettings}\<close>.\<close>

definition globalsettings_dict :: "global_setting list \<Rightarrow> (string \<rightharpoonup> pyvalue)" where
  "globalsettings_dict gs = fold (\<lambda>s d. d(g_name s \<mapsto> g_value s)) gs Map.empty"

text \<open>Python's truth value of a list that may be \<open>None\<close>: \<open>not(xs)\<close>.\<close>

definition py_not :: "'a list option \<Rightarrow> bool" where
  "py_not xs \<longleftrightarrow> xs = None \<or> xs = Some []"

text \<open>The positions of the settings of all sets, in the order of the two nested loops.\<close>

definition positions :: "'a list list \<Rightarrow> (nat \<times> nat) list" where
  "positions sets = concat (map (\<lambda>i. map (\<lambda>j. (i, j)) [0..<length (sets ! i)]) [0..<length sets])"

definition set_value :: "nat \<Rightarrow> nat \<Rightarrow> pyvalue \<Rightarrow> setting list list \<Rightarrow> setting list list" where
  "set_value i j v sets = sets[i := (sets ! i)[j := (sets ! i ! j)\<lparr>s_value := v\<rparr>]]"

definition set_global_value :: "nat \<Rightarrow> pyvalue \<Rightarrow> global_setting list \<Rightarrow> global_setting list" where
  "set_global_value i v gs = gs[i := (gs ! i)\<lparr>g_value := v\<rparr>]"

subsection \<open>The methods of \<open>Simulation\<close>\<close>

text \<open>
  The properties and methods below call one another, and \<open>parseString\<close> calls itself.
  Python bounds the depth of such calls and raises \<open>RecursionError\<close> beyond the bound: the
  first argument is the number of nested calls still allowed. A call takes one level; what
  it calls is given one level less. The result is the error raised, or the value returned
  together with the simulation as the call left it.
\<close>

text \<open>
  A \<open>for\<close> loop whose body may raise: the body is run on each element in turn, on the
  state the element before left, and the first error ends the loop.
\<close>

fun for_each :: "('a \<Rightarrow> 's \<Rightarrow> error + 's) \<Rightarrow> 'a list \<Rightarrow> 's \<Rightarrow> error + 's" where
  "for_each body [] s = Inr s"
| "for_each body (x # xs) s = (case body x s of Inl e \<Rightarrow> Inl e | Inr s1 \<Rightarrow> for_each body xs s1)"

lemma for_each_cong [fundef_cong]:
  "xs = ys \<Longrightarrow> s = t \<Longrightarrow> (\<And>x u. x \<in> set ys \<Longrightarrow> f x u = g x u) \<Longrightarrow> for_each f xs s = for_each g ys t"
proof (induction ys arbitrary: xs s t)
  case Nil
  then show ?case by simp
next
  case (Cons a ys)
  then show ?case by (auto split: sum.splits)
qed

fun settings_property :: "nat \<Rightarrow> simulation \<Rightarrow> error + (setting list list option \<times> simulation)"
  and generateSettings :: "nat \<Rightarrow> simulation \<Rightarrow> error + simulation"
  and parseSettings :: "nat \<Rightarrow> simulation \<Rightarrow> error + simulation"
  and settings_view :: "nat \<Rightarrow> simulation \<Rightarrow> error + ((string \<rightharpoonup> pyvalue) list \<times> simulation)"
  and reduced_settings :: "nat \<Rightarrow> simulation \<Rightarrow> error + ((string \<rightharpoonup> pyvalue) \<times> simulation)"
  and globalsettings_property :: "nat \<Rightarrow> simulation \<Rightarrow> error + (global_setting list option \<times> simulation)"
  and generateGlobalSettings :: "nat \<Rightarrow> simulation \<Rightarrow> error + simulation"
  and parseGlobalSettings :: "nat \<Rightarrow> simulation \<Rightarrow> error + simulation"
  and reduced_globalsettings :: "nat \<Rightarrow> simulation \<Rightarrow> error + ((string \<rightharpoonup> pyvalue) \<times> simulation)"
  and parseString :: "nat \<Rightarrow> simulation \<Rightarrow> pyvalue \<Rightarrow> error + (pyvalue \<times> simulation)"
where
  "settings_property 0 sim = Inl RecursionError"
| "settings_property (Suc d) sim =
     (if py_not (raw_settings sim)
      then (case generateSettings d sim of
              Inl e \<Rightarrow> Inl e
            | Inr sim1 \<Rightarrow> Inr (raw_settings sim1, sim1))
      else Inr (raw_settings sim, sim))"
| "generateSettings 0 sim = Inl RecursionError"
| "generateSettings (Suc d) sim =
     parseSettings d (sim\<lparr>raw_settings := Some (generated_sets (folder sim) (user sim))\<rparr>)"
| "parseSettings 0 sim = Inl RecursionError"
| "parseSettings (Suc d) sim =
     (case settings_property d sim of
        Inl e \<Rightarrow> Inl e
      | Inr (None, sim1) \<Rightarrow> Inl TypeError
      | Inr (Some sets, sim1) \<Rightarrow>
          for_each
            (\<lambda>(i, j) sim.
               case raw_settings sim of
                 None \<Rightarrow> Inl TypeError
               | Some sets \<Rightarrow>
                   if i < length sets \<and> j < length (sets ! i)
                   then (case parseString d sim (s_value (sets ! i ! j)) of
                           Inl e \<Rightarrow> Inl e
                         | Inr (v, sim1) \<Rightarrow>
                             Inr (sim1\<lparr>raw_settings := map_option (set_value i j v) (raw_settings sim1)\<rparr>))
                   else Inl IndexError)
            (positions sets) sim1)"
| "settings_view 0 sim = Inl RecursionError"
| "settings_view (Suc d) sim =
     (case settings_property d sim of
        Inl e \<Rightarrow> Inl e
      | Inr (None, sim1) \<Rightarrow> Inl TypeError
      | Inr (Some sets, sim1) \<Rightarrow> Inr (map settings_dict sets, sim1))"
| "reduced_settings 0 sim = Inl RecursionError"
| "reduced_settings (Suc d) sim =
     (case settings_view d sim of
        Inl e \<Rightarrow> Inl e
      | Inr (dicts, sim1) \<Rightarrow>
          (case reduce_dicts dicts of Inl e \<Rightarrow> Inl e | Inr reduced \<Rightarrow> Inr (reduced, sim1)))"
| "globalsettings_property 0 sim = Inl RecursionError"
| "globalsettings_property (Suc d) sim =
     (if py_not (raw_globalsettings sim)
      then (case generateGlobalSettings d sim of
              Inl e \<Rightarrow> Inl e
            | Inr sim1 \<Rightarrow> Inr (raw_globalsettings sim1, sim1))
      else Inr (raw_globalsettings sim, sim))"
| "generateGlobalSettings 0 sim = Inl RecursionError"
| "generateGlobalSettings (Suc d) sim =
     parseGlobalSettings d
       (sim\<lparr>raw_globalsettings := Some (generated_globals (folder sim) (user sim))\<rparr>)"
| "parseGlobalSettings 0 sim = Inl RecursionError"
| "parseGlobalSettings (Suc d) sim =
     (case globalsettings_property d sim of
        Inl e \<Rightarrow> Inl e
      | Inr (None, sim1) \<Rightarrow> Inl TypeError
      | Inr (Some gs, sim1) \<Rightarrow>
          for_each
            (\<lambda>i sim.
               case raw_globalsettings sim of
                 None \<Rightarrow> Inl TypeError
               | Some gs \<Rightarrow>
                   if i < length gs
                   then (case parseString d sim (g_value (gs ! i)) of
                           Inl e \<Rightarrow> Inl e
                         | Inr (v, sim1) \<Rightarrow>
                             Inr (sim1\<lparr>raw_globalsettings :=
                                         map_option (set_global_value i v) (raw_globalsettings sim1)\<rparr>))
                   else Inl IndexError)
            [0..<length gs] sim1)"
| "reduced_globalsettings 0 sim = Inl RecursionError"
| "reduced_globalsettings (Suc d) sim =
     (case globalsettings_property d sim of
        Inl e \<Rightarrow> Inl e
      | Inr (None, sim1) \<Rightarrow> Inl TypeError
      | Inr (Some gs, sim1) \<Rightarrow> Inr (globalsettings_dict gs, sim1))"
| "parseString 0 sim v = Inl RecursionError"
| "parseString (Suc d) sim v =
     (case v of
        VStr s \<Rightarrow>
          (case reduced_settings d sim of
             Inl e \<Rightarrow> Inl e
           | Inr (setting_dict, sim1) \<Rightarrow>
               (case reduced_globalsettings d sim1 of
                  Inl e \<Rightarrow> Inl e
                | Inr (globalsetting_dict, sim2) \<Rightarrow>
                    (case fullmatch s of
                       Some (cat, nm) \<Rightarrow>
                         (case (case cat of Setting \<Rightarrow> setting_dict | GlobalSetting \<Rightarrow> globalsetting_dict) nm of
                            Some v \<Rightarrow> Inr (v, sim2)
                          | None \<Rightarrow> Inr (VStr s, sim2))
                     | None \<Rightarrow>
                         (let parsed = substitute (\<lambda>cat. case cat of Setting \<Rightarrow> setting_dict
                                                               | GlobalSetting \<Rightarrow> globalsetting_dict) s;
                              stack = parser_recursion_stack sim2 @ [s]
                          in if parsed \<notin> set stack
                             then parseString d (sim2\<lparr>parser_recursion_stack := stack\<rparr>) (VStr parsed)
                             else Inr (VStr parsed, sim2\<lparr>parser_recursion_stack := []\<rparr>)))))
      | _ \<Rightarrow> Inr (v, sim))"

text \<open>
  \<open>__setitem__\<close>: the first global setting of the name \<open>key\<close> gets the value, as it is;
  \<open>KeyError\<close> when there is none.
\<close>

definition setitem :: "nat \<Rightarrow> simulation \<Rightarrow> string \<Rightarrow> pyvalue \<Rightarrow> error + simulation" where
  "setitem d sim key v =
     (case d of
        0 \<Rightarrow> Inl RecursionError
      | Suc d1 \<Rightarrow>
          (case globalsettings_property d1 sim of
             Inl e \<Rightarrow> Inl e
           | Inr (None, sim1) \<Rightarrow> Inl TypeError
           | Inr (Some gs, sim1) \<Rightarrow>
               (case filter (\<lambda>i. g_name (gs ! i) = key) [0..<length gs] of
                  [] \<Rightarrow> Inl KeyError
                | i # others \<Rightarrow> Inr (sim1\<lparr>raw_globalsettings := Some (set_global_value i v gs)\<rparr>))))"

section \<open>Notions used in the statements\<close>

text \<open>Two makers with the same thresholds and the same counters.\<close>

definition same_counters :: "'s maker \<Rightarrow> 's maker \<Rightarrow> bool" where
  "same_counters m m' \<longleftrightarrow>
     max_corrupted m' = max_corrupted m \<and> corruptions_counter m' = corruptions_counter m \<and>
     max_failures m' = max_failures m \<and> failures_counter m' = failures_counter m"

text \<open>The test that ends the polling loop: every job id is in \<open>succeed\<close> or in \<open>failed\<close>.\<close>

definition all_terminal :: "jobs_by_state \<Rightarrow> job_id list \<Rightarrow> bool" where
  "all_terminal j jobs_ids \<longleftrightarrow> set (succeed j @ failed j) = set jobs_ids"

text \<open>Poll \<open>n\<close> is the first at which every job is in a terminal state.\<close>

definition first_terminal :: "(nat \<Rightarrow> jobs_by_state) \<Rightarrow> job_id list \<Rightarrow> nat \<Rightarrow> bool" where
  "first_terminal states jobs_ids n \<longleftrightarrow>
     all_terminal (states n) jobs_ids \<and> (\<forall>i<n. \<not> all_terminal (states i) jobs_ids)"

text \<open>The maker after the rest of a round, once the jobs have been waited for.\<close>

definition after_wait :: "'s round \<Rightarrow> 's list \<Rightarrow> bool \<Rightarrow> 's maker \<Rightarrow> 's maker" where
  "after_wait r unknown_simulations success m3 =
     (case downloadSimulations r unknown_simulations
             (if \<not> success then m3\<lparr>failures_counter := failures_counter m3 + 1\<rparr> else m3) of
        (success', m4) \<Rightarrow>
          remote_folder
            (triggerEvent DeleteScripts
              (if \<not> success' then m4\<lparr>corruptions_counter := corruptions_counter m4 + 1\<rparr> else m4)))"

text \<open>
  Round \<open>k\<close> fails: some simulations are unknown, the script to launch is found, every
  job reaches a terminal state and, when the last one has, some job is in \<open>failed\<close>.
\<close>

definition round_fails :: "(nat \<Rightarrow> 's round) \<Rightarrow> 's list \<Rightarrow> recipe \<Rightarrow> script_coords \<Rightarrow> nat \<Rightarrow> bool" where
  "round_fails env sims rec coords k \<longleftrightarrow>
     batchExtract (env k) sims \<noteq> [] \<and>
     (\<exists>s n. script_to_launch
               [k. (k, s) \<leftarrow> enumerate 0 (subgroups_skeletons rec @ wholegroup_skeletons rec), s = name coords]
               (generate (env k) (batchExtract (env k) sims)) coords = Inr s \<and>
            first_terminal (job_states (env k)) (execute (env k) (finalpath s)) n \<and>
            failed (job_states (env k) n) \<noteq> [])"

text \<open>
  The two dictionaries \<open>parseString\<close> looks names up in, for the sets \<open>sets\<close> and the global
  settings \<open>gs\<close> of the simulation.
\<close>

definition reduced :: "setting list list \<Rightarrow> (string \<rightharpoonup> pyvalue)" where
  "reduced sets = foldl (++) (settings_dict (hd sets)) (map settings_dict (tl sets))"

definition dicts_of :: "setting list list \<Rightarrow> global_setting list \<Rightarrow> category \<Rightarrow> string \<Rightarrow> pyvalue option" where
  "dicts_of sets gs cat = (case cat of Setting \<Rightarrow> reduced sets | GlobalSetting \<Rightarrow> globalsettings_dict gs)"

text \<open>
  The simulation has no settings yet (\<open>_raw_settings\<close> is \<open>None\<close> or empty) and the loop of
  \<open>generateSettings\<close> produces no instance.
\<close>

definition no_instances :: "simulation \<Rightarrow> bool" where
  "no_instances sim \<longleftrightarrow> generated_sets (folder sim) (user sim) = [] \<and> py_not (raw_settings sim)"

text \<open>The instances one declaration contributes, as a list of its own.\<close>

definition expansion :: "string \<Rightarrow> user_settings \<Rightarrow> set_declaration \<Rightarrow> setting list list" where
  "expansion default_pattern u decl =
     (case values_sets u decl of
        [] \<Rightarrow> if required decl then [default_settings default_pattern decl] else []
      | vs # vss \<Rightarrow> map (set_to_add (default_settings default_pattern decl)) (vs # vss))"

text \<open>
  The events of \<open>m'\<close> are those of \<open>m\<close>, followed by further events.
\<close>

definition events_extend :: "'s maker \<Rightarrow> 's maker \<Rightarrow> bool" where
  "events_extend m m' \<longleftrightarrow> (\<exists>evs. events m' = events m @ evs)"

text \<open>
  Round \<open>k\<close> can be completed: some simulations are unknown, the script to launch is found
  and every job reaches a terminal state.
\<close>

definition round_completes :: "(nat \<Rightarrow> 's round) \<Rightarrow> 's list \<Rightarrow> recipe \<Rightarrow> script_coords \<Rightarrow> nat \<Rightarrow> bool" where
  "round_completes env sims rec coords k \<longleftrightarrow>
     batchExtract (env k) sims \<noteq> [] \<and>
     (\<exists>s n. script_to_launch
               [k. (k, s) \<leftarrow> enumerate 0 (subgroups_skeletons rec @ wholegroup_skeletons rec), s = name coords]
               (generate (env k) (batchExtract (env k) sims)) coords = Inr s \<and>
            first_terminal (job_states (env k)) (execute (env k) (finalpath s)) n)"

text \<open>
  The number of rounds from \<open>k\<close> to \<open>K - 1\<close> in which a job has failed when the wait ends
  (\<open>waitForJobs\<close> returns \<open>False\<close>).
\<close>

definition failing_rounds :: "(nat \<Rightarrow> 's round) \<Rightarrow> 's list \<Rightarrow> recipe \<Rightarrow> script_coords \<Rightarrow> nat \<Rightarrow> nat \<Rightarrow> nat" where
  "failing_rounds env sims rec coords k K = length (filter (round_fails env sims rec coords) [k..<K])"

text \<open>
  The number of rounds from \<open>k\<close> to \<open>K - 1\<close> in which \<open>batchAdd\<close> rejects a simulation
  (\<open>downloadSimulations\<close> returns \<open>False\<close>).
\<close>

definition rejecting_rounds :: "(nat \<Rightarrow> 's round) \<Rightarrow> 's list \<Rightarrow> nat \<Rightarrow> nat \<Rightarrow> nat" where
  "rejecting_rounds env sims k K =
     length (filter (\<lambda>j. batchAdd (env j) (batchExtract (env j) sims) \<noteq> 0) [k..<K])"

text \<open>
  The maker with \<open>f\<close> more failures and \<open>c\<close> more corruptions counted.
\<close>

definition with_counts :: "'s maker \<Rightarrow> nat \<Rightarrow> nat \<Rightarrow> 's maker" where
  "with_counts m f c =
     m\<lparr>failures_counter := failures_counter m + int f, corruptions_counter := corruptions_counter m + int c\<rparr>"

text \<open>
  The events of \<open>downloadSimulations\<close> for the simulations \<open>u\<close>, followed by
  \<open>delete-scripts\<close>.
\<close>

definition download_events :: "'s round \<Rightarrow> 's list \<Rightarrow> 's event list" where
  "download_events r u =
     [DownloadStart u] @ replicate (length u) DownloadProgress @ [DownloadEnd, AdditionStart u] @
     replicate (addition_callbacks r) AdditionProgress @ [AdditionEnd, DeleteScripts]"

text \<open>
  The simulation has no global settings yet (\<open>_raw_globalsettings\<close> is \<open>None\<close> or empty)
  and the loop of \<open>generateGlobalSettings\<close> produces none.
\<close>

definition no_globals :: "simulation \<Rightarrow> bool" where
  "no_globals sim \<longleftrightarrow> generated_globals (folder sim) (user sim) = [] \<and> py_not (raw_globalsettings sim)"

section \<open>Simulations and runs used as examples\<close>

text \<open>
  A round in which two simulations are unknown, one script is generated, two jobs are
  submitted, and at the second poll the first job has succeeded and the second is in the
  list \<open>fl\<close> when it failed; \<open>rejected\<close> is what \<open>batchAdd\<close> reports.
\<close>

definition demo_round :: "bool \<Rightarrow> nat \<Rightarrow> nat round" where
  "demo_round fails rejected =
     \<lparr>batchExtract = (\<lambda>sims. sims),
      extract_callbacks = 1,
      generate = (\<lambda>sims. [[\<lparr>localpath = ''scripts/build.sh'', finalpath = ''remote/build.sh''\<rparr>]]),
      execute = (\<lambda>path. [''j1'', ''j2'']),
      job_states = (\<lambda>n. if n = 0
                          then \<lparr>waiting = [''j2''], running = [''j1''], succeed = [], failed = []\<rparr>
                          else if fails
                          then \<lparr>waiting = [], running = [], succeed = [''j1''], failed = [''j2'']\<rparr>
                          else \<lparr>waiting = [], running = [], succeed = [''j1'', ''j2''], failed = []\<rparr>),
      batchAdd = (\<lambda>sims. rejected),
      addition_callbacks = 1\<rparr>"

definition demo_recipe :: recipe where
  "demo_recipe = \<lparr>launch = ''build:0:0'', subgroups_skeletons = [''build''], wholegroup_skeletons = []\<rparr>"

definition demo_coords :: script_coords where
  "demo_coords = \<lparr>name = ''build'', skeleton = Some 0, script = Some 0\<rparr>"

definition demo_maker :: "int \<Rightarrow> nat maker" where
  "demo_maker mf =
     \<lparr>max_corrupted = - 1, corruptions_counter = 0, max_failures = mf, failures_counter = 0,
      remote_folder_open = False, events = []\<rparr>"


text \<open>
  A folder with one global setting and one required set whose only setting, \<open>path\<close>, has a
  default that refers to \<open>path\<close> itself and adds text; the user supplies nothing.
\<close>

definition self_ref_folder :: folder_settings where
  "self_ref_folder =
     \<lparr>setting_pattern = ''--{name}={value}'',
      globalsettings = [\<lparr>gd_name = ''seed'', gd_default = VInt 0\<rparr>],
      settings = [\<lparr>set_name = ''output'', required = True,
                   set_settings = [\<lparr>sd_name = ''path'', sd_default = VStr ''{setting:path}/sub'',
                                    sd_exclude = None, sd_pattern = None\<rparr>]\<rparr>]\<rparr>"

definition self_ref_sim :: simulation where
  "self_ref_sim =
     \<lparr>folder = self_ref_folder, user = \<lparr>user_globals = Map.empty, user_sets = []\<rparr>,
      raw_globalsettings = None, raw_settings = None, parser_recursion_stack = []\<rparr>"

definition self_ref_sets :: "setting list list" where
  "self_ref_sets = [[\<lparr>s_name = ''path'', s_value = VStr ''{setting:path}/sub'', s_exclude = False,
                      s_pattern = ''--{name}={value}''\<rparr>]]"

definition self_ref_globals :: "global_setting list" where
  "self_ref_globals = [\<lparr>g_name = ''seed'', g_value = VInt 0\<rparr>]"

text \<open>
  A folder with a required set \<open>grid\<close> (defaults \<open>a = 1\<close>, \<open>b = 2\<close>), a required set
  \<open>solver\<close> and an optional set \<open>extra\<close>; the user gives two sets of values for \<open>grid\<close>,
  the first with a name \<open>zz\<close> that \<open>grid\<close> does not declare, and one for a set \<open>mesh\<close>
  that the folder does not declare.
\<close>

definition grid_set :: set_declaration where
  "grid_set = \<lparr>set_name = ''grid'', required = True,
                 set_settings = [\<lparr>sd_name = ''a'', sd_default = VInt 1, sd_exclude = None, sd_pattern = None\<rparr>,
                                 \<lparr>sd_name = ''b'', sd_default = VInt 2, sd_exclude = Some True,
                                  sd_pattern = Some ''-{name} {value}''\<rparr>]\<rparr>"

definition solver_set :: set_declaration where
  "solver_set = \<lparr>set_name = ''solver'', required = True,
                   set_settings = [\<lparr>sd_name = ''tol'', sd_default = VFloat ''0.5'', sd_exclude = None,
                                    sd_pattern = None\<rparr>]\<rparr>"

definition extra_set :: set_declaration where
  "extra_set = \<lparr>set_name = ''extra'', required = False,
                  set_settings = [\<lparr>sd_name = ''c'', sd_default = VInt 3, sd_exclude = None,
                                   sd_pattern = None\<rparr>]\<rparr>"

definition grid_folder :: folder_settings where
  "grid_folder = \<lparr>setting_pattern = ''--{name}={value}'',
                    globalsettings = [\<lparr>gd_name = ''seed'', gd_default = VInt 0\<rparr>],
                    settings = [grid_set, solver_set, extra_set]\<rparr>"

definition grid_user :: user_settings where
  "grid_user = \<lparr>user_globals = Map.empty,
                  user_sets = [\<lparr>vs_set = ''grid'', vs_settings = [''a'' \<mapsto> VInt 9, ''zz'' \<mapsto> VInt 7]\<rparr>,
                               \<lparr>vs_set = ''mesh'', vs_settings = [''a'' \<mapsto> VInt 5]\<rparr>,
                               \<lparr>vs_set = ''grid'', vs_settings = [''b'' \<mapsto> VInt 9]\<rparr>]\<rparr>"

definition grid_sim :: simulation where
  "grid_sim = \<lparr>folder = grid_folder, user = grid_user, raw_globalsettings = None,
                 raw_settings = None, parser_recursion_stack = []\<rparr>"

definition grid_instances :: "setting list list" where
  "grid_instances =
     [[\<lparr>s_name = ''a'', s_value = VInt 9, s_exclude = False, s_pattern = ''--{name}={value}''\<rparr>,
       \<lparr>s_name = ''b'', s_value = VInt 2, s_exclude = True, s_pattern = ''-{name} {value}''\<rparr>],
      [\<lparr>s_name = ''a'', s_value = VInt 1, s_exclude = False, s_pattern = ''--{name}={value}''\<rparr>,
       \<lparr>s_name = ''b'', s_value = VInt 9, s_exclude = True, s_pattern = ''-{name} {value}''\<rparr>]]"

text \<open>
  A folder whose only set of settings, \<open>mesh\<close>, is optional, with two global settings, one
  of them a string; the user gives values for a set \<open>grid\<close> only, which the folder does not
  declare. In \<open>untitled_sim\<close> the user gives no set and replaces the string by an integer.
\<close>

definition optional_folder :: folder_settings where
  "optional_folder =
     \<lparr>setting_pattern = ''--{name}={value}'',
      globalsettings = [\<lparr>gd_name = ''seed'', gd_default = VInt 0\<rparr>,
                        \<lparr>gd_name = ''title'', gd_default = VStr ''run {setting:n}''\<rparr>],
      settings = [\<lparr>set_name = ''mesh'', required = False,
                   set_settings = [\<lparr>sd_name = ''n'', sd_default = VInt 2, sd_exclude = None,
                                    sd_pattern = None\<rparr>]\<rparr>]\<rparr>"

definition optional_sim :: simulation where
  "optional_sim =
     \<lparr>folder = optional_folder,
      user = \<lparr>user_globals = Map.empty, user_sets = [\<lparr>vs_set = ''grid'', vs_settings = [''n'' \<mapsto> VInt 5]\<rparr>]\<rparr>,
      raw_globalsettings = None, raw_settings = None, parser_recursion_stack = []\<rparr>"

definition untitled_sim :: simulation where
  "untitled_sim = optional_sim\<lparr>user := \<lparr>user_globals = [''title'' \<mapsto> VInt 7], user_sets = []\<rparr>\<rparr>"

text \<open>
  A simulation with its settings generated: a set with \<open>x = 2\<close> and \<open>pi = 3.14\<close>, and the
  global setting \<open>seed = 0\<close>.
\<close>

definition sample_sets :: "setting list list" where
  "sample_sets =
     [[\<lparr>s_name = ''x'', s_value = VInt 2, s_exclude = False, s_pattern = ''--{name}={value}''\<rparr>,
       \<lparr>s_name = ''pi'', s_value = VFloat ''3.14'', s_exclude = False, s_pattern = ''--{name}={value}''\<rparr>]]"

definition sample_globals :: "global_setting list" where
  "sample_globals = [\<lparr>g_name = ''seed'', g_value = VInt 0\<rparr>]"

definition sample_sim :: simulation where
  "sample_sim =
     \<lparr>folder = \<lparr>setting_pattern = ''--{name}={value}'',
                 globalsettings = [\<lparr>gd_name = ''seed'', gd_default = VInt 0\<rparr>],
                 settings = [\<lparr>set_name = ''unit'', required = True,
                              set_settings = [\<lparr>sd_name = ''x'', sd_default = VInt 2, sd_exclude = None,
                                               sd_pattern = None\<rparr>,
                                              \<lparr>sd_name = ''pi'', sd_default = VFloat ''3.14'',
                                               sd_exclude = None, sd_pattern = None\<rparr>]\<rparr>]\<rparr>,
      user = \<lparr>user_globals = Map.empty, user_sets = []\<rparr>,
      raw_globalsettings = Some sample_globals, raw_settings = Some sample_sets,
      parser_recursion_stack = []\<rparr>"

text \<open>
  Three global settings whose values are the strings \<open>{globalsetting:a}\<close>,
  \<open>{globalsetting:\<close> and \<open>{globalsetting:x}c}\<close>, and one set with the setting \<open>n = 1\<close>;
  \<open>chain_sim stack\<close> is the simulation with these lists in place and \<open>stack\<close> as its
  \<open>_parser_recursion_stack\<close>.
\<close>

definition chain_globals :: "global_setting list" where
  "chain_globals =
     [\<lparr>g_name = ''x'', g_value = VStr ''{globalsetting:a}''\<rparr>,
      \<lparr>g_name = ''a'', g_value = VStr ''{globalsetting:''\<rparr>,
      \<lparr>g_name = ''c'', g_value = VStr ''{globalsetting:x}c}''\<rparr>]"

definition chain_sets :: "setting list list" where
  "chain_sets = [[\<lparr>s_name = ''n'', s_value = VInt 1, s_exclude = False, s_pattern = ''--{name}={value}''\<rparr>]]"

definition chain_sim :: "string list \<Rightarrow> simulation" where
  "chain_sim stack =
     \<lparr>folder = \<lparr>setting_pattern = ''--{name}={value}'',
                 globalsettings = [\<lparr>gd_name = ''x'', gd_default = VInt 0\<rparr>,
                                   \<lparr>gd_name = ''a'', gd_default = VInt 0\<rparr>,
                                   \<lparr>gd_name = ''c'', gd_default = VInt 0\<rparr>],
                 settings = [\<lparr>set_name = ''mesh'', required = True,
                              set_settings = [\<lparr>sd_name = ''n'', sd_default = VInt 1, sd_exclude = None,
                                               sd_pattern = None\<rparr>]\<rparr>]\<rparr>,
      user = \<lparr>user_globals = Map.empty, user_sets = []\<rparr>,
      raw_globalsettings = Some chain_globals, raw_settings = Some chain_sets,
      parser_recursion_stack = stack\<rparr>"

text \<open>
  \<open>chain_sim []\<close> is reached from the new simulation of a folder whose three global
  settings default to 0: read \<open>settings\<close>, then set the three global settings.
\<close>

definition chain_fresh :: simulation where
  "chain_fresh = (chain_sim [])\<lparr>raw_globalsettings := None, raw_settings := None\<rparr>"

definition chain_zeros :: "global_setting list" where
  "chain_zeros = [\<lparr>g_name = ''x'', g_value = VInt 0\<rparr>, \<lparr>g_name = ''a'', g_value = VInt 0\<rparr>,
                  \<lparr>g_name = ''c'', g_value = VInt 0\<rparr>]"


text \<open>
  A new simulation of a folder that declares no global setting, with the settings
  \<open>x = 2\<close> and \<open>pi = 3.14\<close>.
\<close>

definition bare_sim :: simulation where
  "bare_sim =
     \<lparr>folder = \<lparr>setting_pattern = ''--{name}={value}'',
                 globalsettings = [],
                 settings = [\<lparr>set_name = ''unit'', required = True,
                              set_settings = [\<lparr>sd_name = ''x'', sd_default = VInt 2, sd_exclude = None,
                                               sd_pattern = None\<rparr>,
                                              \<lparr>sd_name = ''pi'', sd_default = VFloat ''3.14'',
                                               sd_exclude = None, sd_pattern = None\<rparr>]\<rparr>]\<rparr>,
      user = \<lparr>user_globals = Map.empty, user_sets = []\<rparr>,
      raw_globalsettings = None, raw_settings = None, parser_recursion_stack = []\<rparr>"

section \<open>Properties of the launch option\<close>

lemma none_indices_eq:
  "[k. (k, n) \<leftarrow> enumerate i xs, n = None] =
     map (\<lambda>k. k + i) (filter (\<lambda>k. xs ! k = None) [0..<length xs])"
proof (induction xs arbitrary: i)
  case Nil
  then show ?case by simp
next
  case (Cons x xs)
  have "[0..<length (x # xs)] = 0 # map Suc [0..<length xs]"
    by (simp add: upt_conv_Cons map_Suc_upt del: upt_Suc)
  then show ?case using Cons[of "Suc i"]
    by (simp add: filter_map comp_def del: upt_Suc)
qed

lemma py_max_set: "py_max xs = Inr (Max (set xs))" if "xs \<noteq> []"
proof (cases xs)
  case Nil
  then show ?thesis using that by simp
next
  case (Cons x ys)
  show ?thesis using Max.set_eq_fold[of x ys] by (simp add: Cons)
qed

lemma py_max_none_indices:
  assumes "k < length xs" "xs ! k = None"
    and "\<forall>j. k < j \<and> j < length xs \<longrightarrow> xs ! j \<noteq> None"
  shows "py_max [k. (k, n) \<leftarrow> enumerate 0 xs, n = None] = Inr k"
proof -
  let ?S = "filter (\<lambda>k. xs ! k = None) [0..<length xs]"
  have k: "k \<in> set ?S" using assms by simp
  have ne: "?S \<noteq> []"
  proof
    assume "?S = []"
    then have "set ?S = {}" by (simp only: set_empty)
    then show False using k by simp
  qed
  have "Max (set ?S) = k"
  proof (rule Max_eqI)
    show "finite (set ?S)" by simp
    show "k \<in> set ?S" by (rule k)
    fix y assume "y \<in> set ?S"
    then have "y < length xs" "xs ! y = None" by auto
    then show "y \<le> k" using assms(3) by (meson not_le_imp_less)
  qed
  then show ?thesis using py_max_set[OF ne] by (simp add: none_indices_eq)
qed

lemma py_max_all_int:
  assumes "\<forall>x \<in> set xs. x \<noteq> None"
  shows "py_max [k. (k, n) \<leftarrow> enumerate 0 xs, n = None] = Inl ValueError"
proof -
  have "filter (\<lambda>k. xs ! k = None) [0..<length xs] = []"
    using assms by (auto simp: filter_empty_conv)
  then show ?thesis by (simp add: none_indices_eq)
qed

lemma rsplit_length: "length (rsplit sep n s) \<le> Suc n \<and> rsplit sep n s \<noteq> []"
  by (induction n arbitrary: s) auto

lemma before_after_last: "sep \<in> set s \<Longrightarrow> before_last sep s @ sep # after_last sep s = s"
proof -
  assume a: "sep \<in> set s"
  let ?r = "rev s"
  have "dropWhile (\<lambda>c. c \<noteq> sep) ?r \<noteq> []" using a by simp
  then obtain t where t: "dropWhile (\<lambda>c. c \<noteq> sep) ?r = sep # t"
    by (metis (mono_tags, lifting) hd_dropWhile list.collapse)
  have "?r = takeWhile (\<lambda>c. c \<noteq> sep) ?r @ sep # t" using t
    by (metis takeWhile_dropWhile_id)
  then have "s = rev (takeWhile (\<lambda>c. c \<noteq> sep) ?r @ sep # t)" by (metis rev_rev_ident)
  then show ?thesis using t by (simp add: before_last_def after_last_def)
qed

lemma join_snoc: "xs \<noteq> [] \<Longrightarrow> join sep (xs @ [y]) = join sep xs @ sep # y"
  by (induction sep xs rule: join.induct) auto

lemma join_rsplit: "join sep (rsplit sep n s) = s"
proof (induction n arbitrary: s)
  case 0
  show ?case by simp
next
  case (Suc n)
  show ?case using Suc[of "before_last sep s"] rsplit_length[of sep n "before_last sep s"]
    by (auto simp: join_snoc before_after_last)
qed

lemma py_get_0: "xs \<noteq> [] \<Longrightarrow> py_get xs 0 = Inr (xs ! 0)"
  by (simp add: py_get_def)

lemma py_get_1: "2 \<le> length xs \<Longrightarrow> py_get xs 1 = Inr (xs ! 1)"
  by (simp add: py_get_def)

text \<open>
  The cut is one past the last piece that is not an integer; what is left of the cut is
  the name, what is right of it are the coordinates, padded to two with \<open>-1\<close>.
\<close>

lemma parseScriptToLaunch_cut:
  assumes "k < length (rsplit CHR '':'' 2 opt)"
    and "ion (rsplit CHR '':'' 2 opt ! k) = None"
    and "\<forall>j. k < j \<and> j < length (rsplit CHR '':'' 2 opt) \<longrightarrow>
             ion (rsplit CHR '':'' 2 opt ! j) \<noteq> None"
  shows "parseScriptToLaunch ion opt =
           Inr \<lparr>name = join CHR '':'' (take (Suc k) (rsplit CHR '':'' 2 opt)),
                skeleton = (map ion (drop (Suc k) (rsplit CHR '':'' 2 opt)) @ [Some (- 1), Some (- 1)]) ! 0,
                script = (map ion (drop (Suc k) (rsplit CHR '':'' 2 opt)) @ [Some (- 1), Some (- 1)]) ! 1\<rparr>"
proof -
  define ps where "ps = rsplit CHR '':'' 2 opt"
  define nums where "nums = map ion ps"
  have len: "length ps \<le> 3" using rsplit_length[of "CHR '':''" 2 opt] by (simp add: ps_def)
  have m: "py_max [k. (k, n) \<leftarrow> enumerate 0 nums, n = None] = Inr k"
    using assms by (intro py_max_none_indices) (simp_all add: nums_def ps_def)
  define coords where "coords = drop (Suc k) nums"
  define padded where "padded = coords @ replicate (nat (2 - int (length coords))) (Some (- 1))"
  have cl: "length coords \<le> 2" using len assms(1) by (simp add: coords_def nums_def ps_def)
  have pl: "2 \<le> length padded" by (simp add: padded_def)
  have p0: "padded ! 0 = (coords @ [Some (- 1), Some (- 1)]) ! 0"
    and p1: "padded ! 1 = (coords @ [Some (- 1), Some (- 1)]) ! 1"
    using cl by (cases coords; cases "tl coords"; simp add: padded_def nth_append numeral_2_eq_2)+
  have ce: "map ion (drop (Suc k) ps) = coords" by (simp add: coords_def nums_def drop_map)
  have g0: "py_get padded 0 = Inr (padded ! 0)" using pl by (intro py_get_0) auto
  have g1: "py_get padded 1 = Inr (padded ! 1)" using pl by (intro py_get_1)
  show ?thesis
    unfolding parseScriptToLaunch_def Let_def
    using m g0 g1 p0 p1
    by (simp add: nums_def[symmetric] ps_def[symmetric] coords_def[symmetric] padded_def[symmetric] ce)
qed

lemma parseScriptToLaunch_all_int:
  assumes "\<forall>p \<in> set (rsplit CHR '':'' 2 opt). ion p \<noteq> None"
  shows "parseScriptToLaunch ion opt = Inl ValueError"
proof -
  have "py_max [k. (k, n) \<leftarrow> enumerate 0 (map ion (rsplit CHR '':'' 2 opt)), n = None] = Inl ValueError"
    using assms by (intro py_max_all_int) auto
  then show ?thesis by (simp add: parseScriptToLaunch_def)
qed

lemma last_none_index:
  assumes "\<exists>p \<in> set ps. f p = None"
  shows "\<exists>k < length ps. f (ps ! k) = None \<and> (\<forall>j. k < j \<and> j < length ps \<longrightarrow> f (ps ! j) \<noteq> None)"
proof -
  let ?S = "{k. k < length ps \<and> f (ps ! k) = None}"
  have fin: "finite ?S" by simp
  have ne: "?S \<noteq> {}" using assms by (auto simp: in_set_conv_nth)
  have mem: "Max ?S \<in> ?S" using Max_in[OF fin ne] .
  have "\<forall>j. Max ?S < j \<and> j < length ps \<longrightarrow> f (ps ! j) \<noteq> None"
  proof (intro allI impI)
    fix j assume j: "Max ?S < j \<and> j < length ps"
    show "f (ps ! j) \<noteq> None"
    proof
      assume "f (ps ! j) = None"
      then have "j \<in> ?S" using j by simp
      then have "j \<le> Max ?S" using fin by (rule Max_ge[rotated])
      then show False using j by simp
    qed
  qed
  then show ?thesis using mem by blast
qed

lemma launch_examples:
  "parseScriptToLaunch intOrNone ''build:2:-1'' = Inr \<lparr>name = ''build'', skeleton = Some 2, script = Some (- 1)\<rparr>"
  "parseScriptToLaunch intOrNone ''myscript:2:0'' = Inr \<lparr>name = ''myscript'', skeleton = Some 2, script = Some 0\<rparr>"
  "parseScriptToLaunch intOrNone ''group:name:with:colons:1'' =
     Inr \<lparr>name = ''group:name:with:colons'', skeleton = Some 1, script = Some (- 1)\<rparr>"
  "parseScriptToLaunch intOrNone ''1:2:3'' = Inl ValueError"
  "parseScriptToLaunch intOrNone ''7'' = Inl ValueError"
  by code_simp+

text \<open>
  Claim C5. \<open>parseScriptToLaunch\<close> splits the launch string from the right on \<open>:\<close> into at
  most three pieces (which, joined again, are the launch string). Where \<open>k\<close> is the last
  piece that does not parse as an integer, the name is the pieces up to and including
  \<open>k\<close> joined with \<open>:\<close> (so it may contain colons), and skeleton and script are the at
  most two integer pieces after \<open>k\<close>, padded on the right with \<open>-1\<close>. In particular
  \<open>build:2:-1\<close> gives the name \<open>build\<close>, skeleton 2 and script \<open>-1\<close>.
\<close>

theorem parseScriptToLaunch_name_and_coords:
  assumes "ps = rsplit CHR '':'' 2 opt"
    and "k < length ps"
    and "ion (ps ! k) = None"
    and "\<forall>j. k < j \<and> j < length ps \<longrightarrow> ion (ps ! j) \<noteq> None"
  shows "length ps \<le> 3 \<and> join CHR '':'' ps = opt \<and> length (drop (Suc k) ps) \<le> 2 \<and>
         (\<exists>a b. take 2 (map (the \<circ> ion) (drop (Suc k) ps) @ [- 1, - 1]) = [a, b] \<and>
                parseScriptToLaunch ion opt =
                  Inr \<lparr>name = join CHR '':'' (take (Suc k) ps), skeleton = Some a, script = Some b\<rparr>) \<and>
         parseScriptToLaunch intOrNone ''build:2:-1'' =
           Inr \<lparr>name = ''build'', skeleton = Some 2, script = Some (- 1)\<rparr> \<and>
         parseScriptToLaunch intOrNone ''group:name:with:colons:1'' =
           Inr \<lparr>name = ''group:name:with:colons'', skeleton = Some 1, script = Some (- 1)\<rparr>"
proof -
  have len: "length ps \<le> 3" using rsplit_length[of "CHR '':''" 2 opt] by (simp add: assms(1))
  have jn: "join CHR '':'' ps = opt" by (simp add: assms(1) join_rsplit)
  define tr where "tr = drop (Suc k) ps"
  have trl: "length tr \<le> 2" using len assms(2) by (simp add: tr_def)
  have ints: "\<forall>p \<in> set tr. ion p \<noteq> None"
  proof
    fix p assume "p \<in> set tr"
    then obtain i where i: "i < length tr" "p = tr ! i" by (auto simp: in_set_conv_nth)
    then have "p = ps ! (Suc k + i)" "Suc k + i < length ps" by (auto simp: tr_def)
    then show "ion p \<noteq> None" using assms(4) by simp
  qed
  have some: "map ion tr = map (Some \<circ> (the \<circ> ion)) tr" using ints by (auto simp: map_eq_conv)
  have cut: "parseScriptToLaunch ion opt =
           Inr \<lparr>name = join CHR '':'' (take (Suc k) ps),
                skeleton = (map ion tr @ [Some (- 1), Some (- 1)]) ! 0,
                script = (map ion tr @ [Some (- 1), Some (- 1)]) ! 1\<rparr>"
    using parseScriptToLaunch_cut[of k opt ion] assms by (simp add: tr_def)
  have pad: "map ion tr @ [Some (- 1), Some (- 1)] = map Some (map (the \<circ> ion) tr @ [- 1, - 1])"
    by (simp add: some)
  obtain a b where ab: "take 2 (map (the \<circ> ion) tr @ [- 1, - 1]) = [a, b]"
    by (cases tr; cases "tl tr"; simp add: numeral_2_eq_2)
  have "(map ion tr @ [Some (- 1), Some (- 1)]) ! 0 = Some a \<and> (map ion tr @ [Some (- 1), Some (- 1)]) ! 1 = Some b"
    using ab unfolding pad by (cases tr; cases "tl tr"; simp add: numeral_2_eq_2)
  then have "parseScriptToLaunch ion opt =
       Inr \<lparr>name = join CHR '':'' (take (Suc k) ps), skeleton = Some a, script = Some b\<rparr>"
    using cut by simp
  then show ?thesis using len jn trl ab launch_examples(1,3) unfolding tr_def by blast
qed

theorem parseScriptToLaunch_name_and_coords_witness:
  "rsplit CHR '':'' 2 ''a:b:7'' = [''a'', ''b'', ''7''] \<and> intOrNone ''b'' = None \<and>
   intOrNone ''7'' = Some 7 \<and>
   parseScriptToLaunch intOrNone ''a:b:7'' = Inr \<lparr>name = ''a:b'', skeleton = Some 7, script = Some (- 1)\<rparr>"
proof -
  have ps: "[''a'', ''b'', ''7''] = rsplit CHR '':'' 2 ''a:b:7''" by code_simp
  have b: "intOrNone ([''a'', ''b'', ''7''] ! 1) = None" by code_simp
  have s: "intOrNone ''7'' = Some 7" by code_simp
  have after: "\<forall>j. 1 < j \<and> j < length [''a'', ''b'', ''7''] \<longrightarrow> intOrNone ([''a'', ''b'', ''7''] ! j) \<noteq> None"
  proof (intro allI impI)
    fix j :: nat assume "1 < j \<and> j < length [''a'', ''b'', ''7'']"
    then have "j = 2" by simp
    then show "intOrNone ([''a'', ''b'', ''7''] ! j) \<noteq> None" using s by simp
  qed
  have k: "(1::nat) < length [''a'', ''b'', ''7'']" by simp
  obtain x y where xy: "take 2 (map (the \<circ> intOrNone) (drop (Suc 1) [''a'', ''b'', ''7'']) @ [- 1, - 1]) = [x, y]"
    and r: "parseScriptToLaunch intOrNone ''a:b:7'' =
              Inr \<lparr>name = join CHR '':'' (take (Suc 1) [''a'', ''b'', ''7'']), skeleton = Some x, script = Some y\<rparr>"
    using parseScriptToLaunch_name_and_coords[OF ps k b after] by blast
  have "x = 7 \<and> y = - 1" using xy s by (simp add: numeral_2_eq_2)
  then have "parseScriptToLaunch intOrNone ''a:b:7'' = Inr \<lparr>name = ''a:b'', skeleton = Some 7, script = Some (- 1)\<rparr>"
    using r by simp
  moreover have "intOrNone ''b'' = None" using b by simp
  ultimately show ?thesis using ps[symmetric] s by blast
qed

text \<open>
  Claim C10. \<open>parseScriptToLaunch\<close> returns coordinates exactly when one of the at most
  three pieces of the launch string does not parse as an integer. When every piece parses
  as an integer (as for \<open>1:2:3\<close> and \<open>7\<close>) the maximum is taken of an empty list and the
  call ends in \<open>ValueError\<close>.
\<close>

theorem parseScriptToLaunch_returns_iff:
  "((\<exists>r. parseScriptToLaunch ion opt = Inr r) \<longleftrightarrow>
      (\<exists>p \<in> set (rsplit CHR '':'' 2 opt). ion p = None)) \<and>
   ((\<forall>p \<in> set (rsplit CHR '':'' 2 opt). ion p \<noteq> None) \<longrightarrow>
      parseScriptToLaunch ion opt = Inl ValueError) \<and>
   length (rsplit CHR '':'' 2 opt) \<le> 3 \<and>
   parseScriptToLaunch intOrNone ''1:2:3'' = Inl ValueError \<and>
   parseScriptToLaunch intOrNone ''7'' = Inl ValueError"
proof -
  have a: "\<exists>r. parseScriptToLaunch ion opt = Inr r"
    if some: "\<exists>p \<in> set (rsplit CHR '':'' 2 opt). ion p = None"
  proof -
    obtain k where "k < length (rsplit CHR '':'' 2 opt)" "ion (rsplit CHR '':'' 2 opt ! k) = None"
      "\<forall>j. k < j \<and> j < length (rsplit CHR '':'' 2 opt) \<longrightarrow> ion (rsplit CHR '':'' 2 opt ! j) \<noteq> None"
      using last_none_index[OF some] by blast
    then show ?thesis using parseScriptToLaunch_cut[of k opt ion] by blast
  qed
  have b: "parseScriptToLaunch ion opt = Inl ValueError"
    if "\<forall>p \<in> set (rsplit CHR '':'' 2 opt). ion p \<noteq> None"
    using parseScriptToLaunch_all_int[OF that] .
  have c: "length (rsplit CHR '':'' 2 opt) \<le> 3"
    using rsplit_length[of "CHR '':''" 2 opt] by simp
  have "(\<exists>r. parseScriptToLaunch ion opt = Inr r) \<longleftrightarrow>
      (\<exists>p \<in> set (rsplit CHR '':'' 2 opt). ion p = None)"
    using a b by (metis Inl_Inr_False)
  then show ?thesis using b c launch_examples(4,5) by blast
qed

theorem parseScriptToLaunch_returns_iff_witness:
  "map intOrNone (rsplit CHR '':'' 2 ''4:5:6'') = [Some 4, Some 5, Some 6] \<and>
   parseScriptToLaunch intOrNone ''4:5:6'' = Inl ValueError \<and>
   map intOrNone (rsplit CHR '':'' 2 ''run:5:6'') = [None, Some 5, Some 6] \<and>
   (\<exists>r. parseScriptToLaunch intOrNone ''run:5:6'' = Inr r)"
proof -
  have m: "map intOrNone (rsplit CHR '':'' 2 ''4:5:6'') = [Some 4, Some 5, Some 6]" by code_simp
  have m': "map intOrNone (rsplit CHR '':'' 2 ''run:5:6'') = [None, Some 5, Some 6]" by code_simp
  have h: "\<forall>p \<in> set (rsplit CHR '':'' 2 ''4:5:6''). intOrNone p \<noteq> None"
  proof
    fix p assume "p \<in> set (rsplit CHR '':'' 2 ''4:5:6'')"
    then have "intOrNone p \<in> set (map intOrNone (rsplit CHR '':'' 2 ''4:5:6''))" by simp
    then show "intOrNone p \<noteq> None" unfolding m by auto
  qed
  have h': "\<exists>p \<in> set (rsplit CHR '':'' 2 ''run:5:6''). intOrNone p = None"
    using m' by (auto simp: map_eq_Cons_conv)
  have "parseScriptToLaunch intOrNone ''4:5:6'' = Inl ValueError"
    using parseScriptToLaunch_returns_iff[of intOrNone "''4:5:6''"] h by blast
  moreover have "\<exists>r. parseScriptToLaunch intOrNone ''run:5:6'' = Inr r"
    using parseScriptToLaunch_returns_iff[of intOrNone "''run:5:6''"] h' by blast
  ultimately show ?thesis using m m' by blast
qed

section \<open>Properties of the orchestration loop\<close>

lemma same_counters_refl: "same_counters m m"
  by (simp add: same_counters_def)

lemma same_counters_trans: "same_counters a b \<Longrightarrow> same_counters b c \<Longrightarrow> same_counters a c"
  by (simp add: same_counters_def)

lemma same_counters_triggerEvent: "same_counters m (triggerEvent e m)"
  by (simp add: same_counters_def triggerEvent_def)

lemma same_counters_remote_folder: "same_counters m (remote_folder m)"
  by (simp add: same_counters_def remote_folder_def triggerEvent_def)

lemma same_counters_funpow: "same_counters m ((triggerEvent e ^^ n) m)"
  by (induction n) (auto intro: same_counters_refl same_counters_trans same_counters_triggerEvent)

lemma loop_condition_cong: "same_counters m m' \<Longrightarrow> loop_condition m' = loop_condition m"
  by (simp add: same_counters_def loop_condition_def)

lemma remote_folder_opens: "remote_folder_open (remote_folder m)"
  by (simp add: remote_folder_def triggerEvent_def)

lemma triggerEvent_open: "remote_folder_open (triggerEvent e m) = remote_folder_open m"
  by (simp add: triggerEvent_def)

lemma wait_loop_sound:
  assumes "wait_loop states jobs_ids n previous_states m = Some (j, m')"
    and "\<forall>p. previous_states = Some p \<longrightarrow> \<not> all_terminal p jobs_ids"
  shows "\<exists>n'\<ge>n. j = states n' \<and> all_terminal (states n') jobs_ids \<and>
           (\<forall>i. n \<le> i \<and> i < n' \<longrightarrow> \<not> all_terminal (states i) jobs_ids) \<and>
           same_counters m m' \<and> remote_folder_open m' = remote_folder_open m"
proof -
  have "(\<forall>p. previous_states = Some p \<longrightarrow> \<not> all_terminal p jobs_ids) \<longrightarrow>
        (\<exists>n'\<ge>n. fst y = states n' \<and> all_terminal (states n') jobs_ids \<and>
           (\<forall>i. n \<le> i \<and> i < n' \<longrightarrow> \<not> all_terminal (states i) jobs_ids) \<and>
           same_counters m (snd y) \<and> remote_folder_open (snd y) = remote_folder_open m)"
    if "wait_loop states jobs_ids n previous_states m = Some y" for y
    using that
  proof (induction states jobs_ids n previous_states m y rule: wait_loop.raw_induct[rotated 1, consumes 1])
    case (1 wl states jobs_ids n previous_states m y)
    show ?case
    proof (intro impI)
      assume prev: "\<forall>p. previous_states = Some p \<longrightarrow> \<not> all_terminal p jobs_ids"
      show "\<exists>n'\<ge>n. fst y = states n' \<and> all_terminal (states n') jobs_ids \<and>
           (\<forall>i. n \<le> i \<and> i < n' \<longrightarrow> \<not> all_terminal (states i) jobs_ids) \<and>
           same_counters m (snd y) \<and> remote_folder_open (snd y) = remote_folder_open m"
      proof (cases "all_terminal (states n) jobs_ids")
        case True
        then have "Some (states n) \<noteq> previous_states" using prev by auto
        then have "y = (states n, triggerEvent (WaitProgress (states n)) m)"
          using "1.hyps" True by (simp add: all_terminal_def)
        then show ?thesis using True
          by (auto simp: same_counters_triggerEvent triggerEvent_open)
      next
        case False
        let ?m1 = "if Some (states n) \<noteq> previous_states then triggerEvent (WaitProgress (states n)) m else m"
        have rec: "wl states jobs_ids (Suc n) (Some (states n)) ?m1 = Some y"
          using "1.hyps" False by (auto simp: all_terminal_def split: if_splits)
        have "\<exists>n'\<ge>Suc n. fst y = states n' \<and> all_terminal (states n') jobs_ids \<and>
           (\<forall>i. Suc n \<le> i \<and> i < n' \<longrightarrow> \<not> all_terminal (states i) jobs_ids) \<and>
           same_counters ?m1 (snd y) \<and> remote_folder_open (snd y) = remote_folder_open ?m1"
          using "1.IH"[OF rec] False by simp
        then obtain n' where n': "Suc n \<le> n'" "fst y = states n'" "all_terminal (states n') jobs_ids"
          "\<forall>i. Suc n \<le> i \<and> i < n' \<longrightarrow> \<not> all_terminal (states i) jobs_ids"
          "same_counters ?m1 (snd y)" "remote_folder_open (snd y) = remote_folder_open ?m1"
          by blast
        have a: "\<forall>i. n \<le> i \<and> i < n' \<longrightarrow> \<not> all_terminal (states i) jobs_ids"
          using n'(4) False by (metis Suc_leI le_neq_implies_less)
        have b: "same_counters m (snd y)"
          using n'(5) same_counters_trans[OF same_counters_triggerEvent] by (auto split: if_splits)
        have c: "remote_folder_open (snd y) = remote_folder_open m"
          using n'(6) by (auto simp: triggerEvent_open split: if_splits)
        show ?thesis using n'(1,2,3) a b c by (intro exI[of _ n']) auto
      qed
    qed
  qed
  from this[OF assms(1)] assms(2) show ?thesis by simp
qed

lemma wait_loop_complete:
  assumes "all_terminal (states n') jobs_ids" "n \<le> n'"
    and "\<forall>i. n \<le> i \<and> i < n' \<longrightarrow> \<not> all_terminal (states i) jobs_ids"
    and "\<forall>p. previous_states = Some p \<longrightarrow> \<not> all_terminal p jobs_ids"
  shows "\<exists>m'. wait_loop states jobs_ids n previous_states m = Some (states n', m')"
  using assms
proof (induction "n' - n" arbitrary: n previous_states m)
  case 0
  then have "n = n'" by simp
  then have "Some (states n) \<noteq> previous_states" using 0 by auto
  then show ?case using 0 \<open>n = n'\<close>
    by (subst wait_loop.simps) (simp add: all_terminal_def)
next
  case (Suc d)
  then have nt: "\<not> all_terminal (states n) jobs_ids" by simp
  have d: "d = n' - Suc n" "Suc n \<le> n'" using Suc by auto
  have rest: "\<forall>i. Suc n \<le> i \<and> i < n' \<longrightarrow> \<not> all_terminal (states i) jobs_ids" using Suc by simp
  have prev: "\<forall>p. Some (states n) = Some p \<longrightarrow> \<not> all_terminal p jobs_ids" using nt by simp
  let ?m1 = "if Some (states n) \<noteq> previous_states then triggerEvent (WaitProgress (states n)) m else m"
  have step: "wait_loop states jobs_ids n previous_states m =
              wait_loop states jobs_ids (Suc n) (Some (states n)) ?m1"
    using nt by (subst wait_loop.simps) (simp add: all_terminal_def)
  from Suc.hyps(1)[OF d(1) Suc.prems(1) d(2) rest prev, of ?m1]
  show ?case unfolding step .
qed


lemma waitForJobs_first_terminal:
  assumes "first_terminal states jobs_ids n"
  shows "\<exists>m'. waitForJobs states jobs_ids m = Some (failed (states n) = [], m') \<and>
              same_counters m m' \<and> remote_folder_open m'"
proof -
  let ?m0 = "remote_folder (triggerEvent (WaitStart jobs_ids) m)"
  obtain m1 where m1: "wait_loop states jobs_ids 0 None ?m0 = Some (states n, m1)"
    using wait_loop_complete[of states n jobs_ids 0 None ?m0] assms
    by (auto simp: first_terminal_def)
  have "same_counters ?m0 m1 \<and> remote_folder_open m1 = remote_folder_open ?m0"
    using wait_loop_sound[OF m1] by auto
  then have "same_counters m (triggerEvent WaitEnd m1) \<and> remote_folder_open (triggerEvent WaitEnd m1)"
    using same_counters_trans[OF same_counters_triggerEvent same_counters_remote_folder, of m "WaitStart jobs_ids"]
    by (auto intro: same_counters_trans same_counters_triggerEvent simp: remote_folder_opens triggerEvent_open)
  then show ?thesis using m1 by (simp add: waitForJobs_def)
qed

lemma waitForJobs_Some:
  assumes "waitForJobs states jobs_ids m = Some (b, m')"
  shows "\<exists>n. first_terminal states jobs_ids n \<and> b = (failed (states n) = []) \<and>
             same_counters m m' \<and> remote_folder_open m'"
proof -
  let ?m0 = "remote_folder (triggerEvent (WaitStart jobs_ids) m)"
  obtain j m1 where m1: "wait_loop states jobs_ids 0 None ?m0 = Some (j, m1)"
    and b: "b = (failed j = [])" and m': "m' = triggerEvent WaitEnd m1"
    using assms by (auto simp: waitForJobs_def split: option.splits)
  obtain n where n: "j = states n" "all_terminal (states n) jobs_ids"
    "\<forall>i. 0 \<le> i \<and> i < n \<longrightarrow> \<not> all_terminal (states i) jobs_ids"
    "same_counters ?m0 m1" "remote_folder_open m1 = remote_folder_open ?m0"
    using wait_loop_sound[OF m1] by auto
  have "same_counters m m'"
    using n(4) m' same_counters_trans[OF same_counters_triggerEvent same_counters_remote_folder, of m "WaitStart jobs_ids"]
    by (auto intro: same_counters_trans same_counters_triggerEvent)
  moreover have "remote_folder_open m'" using n(5) m' by (simp add: remote_folder_opens triggerEvent_open)
  ultimately show ?thesis using n(1,2,3) b by (auto simp: first_terminal_def)
qed

lemma waitForJobs_None:
  "waitForJobs states jobs_ids m = None \<longleftrightarrow> (\<forall>n. \<not> all_terminal (states n) jobs_ids)"
proof
  assume none: "waitForJobs states jobs_ids m = None"
  show "\<forall>n. \<not> all_terminal (states n) jobs_ids"
  proof (rule ccontr)
    assume "\<not> (\<forall>n. \<not> all_terminal (states n) jobs_ids)"
    then obtain n where "all_terminal (states n) jobs_ids" by blast
    then obtain n0 where "first_terminal states jobs_ids n0"
      unfolding first_terminal_def
      using exists_least_iff[of "\<lambda>n. all_terminal (states n) jobs_ids"] by blast
    then show False using waitForJobs_first_terminal[of states jobs_ids n0 m] none by auto
  qed
next
  assume never: "\<forall>n. \<not> all_terminal (states n) jobs_ids"
  show "waitForJobs states jobs_ids m = None"
  proof (cases "waitForJobs states jobs_ids m")
    case None
    then show ?thesis .
  next
    case (Some y)
    then show ?thesis using waitForJobs_Some[of states jobs_ids m "fst y" "snd y"] never
      by (auto simp: first_terminal_def)
  qed
qed

lemma funpow_triggerEvent_fields:
  "max_corrupted ((triggerEvent e ^^ n) m) = max_corrupted m"
  "corruptions_counter ((triggerEvent e ^^ n) m) = corruptions_counter m"
  "max_failures ((triggerEvent e ^^ n) m) = max_failures m"
  "failures_counter ((triggerEvent e ^^ n) m) = failures_counter m"
  "remote_folder_open ((triggerEvent e ^^ n) m) = remote_folder_open m"
  by (induction n) (simp_all add: triggerEvent_def)

lemma triggerEvent_fields:
  "max_corrupted (triggerEvent e m) = max_corrupted m"
  "corruptions_counter (triggerEvent e m) = corruptions_counter m"
  "max_failures (triggerEvent e m) = max_failures m"
  "failures_counter (triggerEvent e m) = failures_counter m"
  "remote_folder_open (triggerEvent e m) = remote_folder_open m"
  by (simp_all add: triggerEvent_def)

lemma remote_folder_fields:
  "max_corrupted (remote_folder m) = max_corrupted m"
  "corruptions_counter (remote_folder m) = corruptions_counter m"
  "max_failures (remote_folder m) = max_failures m"
  "failures_counter (remote_folder m) = failures_counter m"
  "remote_folder_open (remote_folder m)"
  by (simp_all add: remote_folder_def triggerEvent_def)

lemma extractSimulations_facts:
  "fst (extractSimulations r sims m) = batchExtract r sims \<and>
   same_counters m (snd (extractSimulations r sims m))"
  by (simp add: extractSimulations_def Let_def same_counters_def
        triggerEvent_fields funpow_triggerEvent_fields)

lemma generateSimulations_Inr:
  assumes "generateSimulations r sims rec coords m = Inr (ids, m')"
  shows "same_counters m m' \<and> remote_folder_open m' \<and>
         (\<exists>s. script_to_launch
                 [k. (k, s) \<leftarrow> enumerate 0 (subgroups_skeletons rec @ wholegroup_skeletons rec), s = name coords]
                 (generate r sims) coords = Inr s \<and> ids = execute r (finalpath s))"
proof -
  obtain s where s: "script_to_launch
                 [k. (k, s) \<leftarrow> enumerate 0 (subgroups_skeletons rec @ wholegroup_skeletons rec), s = name coords]
                 (generate r sims) coords = Inr s"
    using assms unfolding generateSimulations_def Let_def by (cases "script_to_launch
                 [k. (k, s) \<leftarrow> enumerate 0 (subgroups_skeletons rec @ wholegroup_skeletons rec), s = name coords]
                 (generate r sims) coords") simp_all
  have "ids = execute r (finalpath s)"
    and m': "m' = triggerEvent GenerateEnd (remote_folder (remote_folder (remote_folder (triggerEvent GenerateStart m))))"
    using assms s unfolding generateSimulations_def Let_def by simp_all
  moreover have "same_counters m m'" "remote_folder_open m'"
    unfolding m' by (simp_all add: same_counters_def triggerEvent_fields remote_folder_fields)
  ultimately show ?thesis using s by blast
qed

lemma script_to_launch_Inl:
  "script_to_launch ps gs coords = Inl e \<Longrightarrow>
     e = ScriptNotFoundError coords \<or> (e = TypeError \<and> (skeleton coords = None \<or> script coords = None))"
  by (auto simp: script_to_launch_def split: option.splits sum.splits)

lemma generateSimulations_Inl:
  "generateSimulations r sims rec coords m = Inl e \<Longrightarrow>
     e = ScriptNotFoundError coords \<or> (e = TypeError \<and> (skeleton coords = None \<or> script coords = None))"
  by (auto simp: generateSimulations_def Let_def split: sum.splits dest: script_to_launch_Inl)

lemma fold_download_fields:
  "max_corrupted (fold (\<lambda>simulation m. triggerEvent DownloadProgress (remote_folder m)) sims m) = max_corrupted m"
  "corruptions_counter (fold (\<lambda>simulation m. triggerEvent DownloadProgress (remote_folder m)) sims m) = corruptions_counter m"
  "max_failures (fold (\<lambda>simulation m. triggerEvent DownloadProgress (remote_folder m)) sims m) = max_failures m"
  "failures_counter (fold (\<lambda>simulation m. triggerEvent DownloadProgress (remote_folder m)) sims m) = failures_counter m"
  by (induction sims arbitrary: m) (simp_all add: triggerEvent_fields remote_folder_fields)

lemma downloadSimulations_facts:
  "fst (downloadSimulations r sims m) = (batchAdd r sims = 0) \<and>
   same_counters m (snd (downloadSimulations r sims m))"
  by (simp add: downloadSimulations_def Let_def same_counters_def
        triggerEvent_fields funpow_triggerEvent_fields fold_download_fields)

lemma after_wait_fields:
  "max_corrupted (after_wait r u success m3) = max_corrupted m3"
  "max_failures (after_wait r u success m3) = max_failures m3"
  "failures_counter (after_wait r u success m3) = failures_counter m3 + (if success then 0 else 1)"
  "corruptions_counter (after_wait r u success m3) =
     corruptions_counter m3 + (if batchAdd r u = 0 then 0 else 1)"
proof -
  let ?m = "if \<not> success then m3\<lparr>failures_counter := failures_counter m3 + 1\<rparr> else m3"
  obtain b m4 where d: "downloadSimulations r u ?m = (b, m4)" by (cases "downloadSimulations r u ?m")
  have b: "b = (batchAdd r u = 0)" and sc: "same_counters ?m m4"
    using downloadSimulations_facts[of r u ?m] d by simp_all
  show "max_corrupted (after_wait r u success m3) = max_corrupted m3"
    "max_failures (after_wait r u success m3) = max_failures m3"
    "failures_counter (after_wait r u success m3) = failures_counter m3 + (if success then 0 else 1)"
    "corruptions_counter (after_wait r u success m3) =
     corruptions_counter m3 + (if batchAdd r u = 0 then 0 else 1)"
    using sc b unfolding after_wait_def d
    by (simp_all add: same_counters_def remote_folder_fields triggerEvent_fields)
qed

lemma run_loop_round:
  assumes "loop_condition m"
    and "extractSimulations (env k) sims m = (u1, m1)" and "u1 \<noteq> []"
    and "generateSimulations (env k) u1 rec coords m1 = Inr (ids, m2)"
    and "waitForJobs (job_states (env k)) ids m2 = Some (success, m3)"
  shows "run_loop env sims rec coords k unknown m =
         run_loop env sims rec coords (Suc k) (Some u1) (after_wait (env k) u1 success m3)"
proof -
  obtain b m4 where d: "downloadSimulations (env k) u1
      (if \<not> success then m3\<lparr>failures_counter := failures_counter m3 + 1\<rparr> else m3) = (b, m4)"
    by (cases "downloadSimulations (env k) u1
      (if \<not> success then m3\<lparr>failures_counter := failures_counter m3 + 1\<rparr> else m3)")
  show ?thesis
    by (subst run_loop.simps) (simp only: assms d after_wait_def if_True if_False prod.case sum.case option.case)
qed

lemma run_loop_exit: "\<not> loop_condition m \<Longrightarrow> run_loop env sims rec coords k unknown m = Some (Inr (unknown, k, m))"
  by (subst run_loop.simps) simp

lemma run_loop_break:
  assumes "loop_condition m" "batchExtract (env k) sims = []"
  shows "run_loop env sims rec coords k unknown m =
           Some (Inr (Some [], k, snd (extractSimulations (env k) sims m)))"
proof -
  obtain u1 m1 where ex: "extractSimulations (env k) sims m = (u1, m1)"
    by (cases "extractSimulations (env k) sims m")
  then have "u1 = []" using assms(2) extractSimulations_facts[of "env k" sims m] by simp
  then show ?thesis using assms(1) ex by (subst run_loop.simps) simp
qed

lemma run_loop_cases:
  assumes body: "(if loop_condition m
      then case extractSimulations (env k) simulations m of
           (unknown_simulations, m1) \<Rightarrow>
             if unknown_simulations = []
             then Some (Inr (Some unknown_simulations, k, m1))
             else case generateSimulations (env k) unknown_simulations rec coords m1 of
                  Inl e \<Rightarrow> Some (Inl e)
                  | Inr (jobs_ids, m2) \<Rightarrow>
                      case waitForJobs (job_states (env k)) jobs_ids m2 of
                      None \<Rightarrow> None
                      | Some (success, m3) \<Rightarrow>
                          case downloadSimulations (env k) unknown_simulations
                                (if \<not> success
                                 then m3\<lparr>failures_counter := failures_counter m3 + 1\<rparr>
                                 else m3) of
                          (success', m4) \<Rightarrow>
                            rl env simulations rec coords (Suc k) (Some unknown_simulations)
                             (remote_folder
                               (triggerEvent DeleteScripts
                                 (if \<not> success'
                                  then m4\<lparr>corruptions_counter := corruptions_counter m4 + 1\<rparr>
                                  else m4)))
      else Some (Inr (unknown, k, m))) = Some y"
  obtains
    (exit) "\<not> loop_condition m" "y = Inr (unknown, k, m)"
  | (break) m1 where "loop_condition m" "extractSimulations (env k) simulations m = ([], m1)"
      "y = Inr (Some [], k, m1)"
  | (error) u1 m1 e where "loop_condition m" "extractSimulations (env k) simulations m = (u1, m1)"
      "u1 \<noteq> []" "generateSimulations (env k) u1 rec coords m1 = Inl e" "y = Inl e"
  | (round) u1 m1 ids m2 success m3 where "loop_condition m"
      "extractSimulations (env k) simulations m = (u1, m1)" "u1 \<noteq> []"
      "generateSimulations (env k) u1 rec coords m1 = Inr (ids, m2)"
      "waitForJobs (job_states (env k)) ids m2 = Some (success, m3)"
      "rl env simulations rec coords (Suc k) (Some u1) (after_wait (env k) u1 success m3) = Some y"
proof (cases "loop_condition m")
  case False
  then show ?thesis using body exit by simp
next
  case lc: True
  obtain u1 m1 where ex: "extractSimulations (env k) simulations m = (u1, m1)"
    by (cases "extractSimulations (env k) simulations m")
  show ?thesis
  proof (cases "u1 = []")
    case True
    then show ?thesis using body lc ex break by simp
  next
    case ne: False
    show ?thesis
    proof (cases "generateSimulations (env k) u1 rec coords m1")
      case (Inl e)
      then show ?thesis using body lc ex ne error by simp
    next
      case (Inr p)
      obtain ids m2 where p: "p = (ids, m2)" by (cases p)
      show ?thesis
      proof (cases "waitForJobs (job_states (env k)) ids m2")
        case None
        then show ?thesis using body lc ex ne Inr p by simp
      next
        case (Some q)
        obtain success m3 where q: "q = (success, m3)" by (cases q)
        obtain b m4 where d: "downloadSimulations (env k) u1
            (if \<not> success then m3\<lparr>failures_counter := failures_counter m3 + 1\<rparr> else m3) = (b, m4)"
          by (cases "downloadSimulations (env k) u1
            (if \<not> success then m3\<lparr>failures_counter := failures_counter m3 + 1\<rparr> else m3)")
        have "rl env simulations rec coords (Suc k) (Some u1) (after_wait (env k) u1 success m3) = Some y"
          using body unfolding after_wait_def
          by (simp only: lc ex ne Inr p Some q d if_True if_False prod.case sum.case option.case)
        then show ?thesis using round[OF lc ex ne] Inr p Some q by simp
      qed
    qed
  qed
qed


lemma round_state_facts:
  assumes "extractSimulations r sims m = (u1, m1)"
    and "generateSimulations r u1 rec coords m1 = Inr (ids, m2)"
    and "waitForJobs (job_states r) ids m2 = Some (success, m3)"
  shows "u1 = batchExtract r sims" "same_counters m m3"
proof -
  show "u1 = batchExtract r sims" using extractSimulations_facts[of r sims m] assms(1) by simp
  have "same_counters m m1" using extractSimulations_facts[of r sims m] assms(1) by simp
  moreover have "same_counters m1 m2" using generateSimulations_Inr[OF assms(2)] by simp
  moreover have "same_counters m2 m3" using waitForJobs_Some[OF assms(3)] by blast
  ultimately show "same_counters m m3" by (blast intro: same_counters_trans)
qed


lemma run_loop_Inl:
  assumes "run_loop env sims rec coords k unknown m = Some (Inl e)"
  shows "e = ScriptNotFoundError coords \<or> (e = TypeError \<and> (skeleton coords = None \<or> script coords = None))"
proof -
  have "\<forall>e. y = Inl e \<longrightarrow>
          e = ScriptNotFoundError coords \<or> (e = TypeError \<and> (skeleton coords = None \<or> script coords = None))"
    if "run_loop env sims rec coords k unknown m = Some y" for y
    using that
  proof (induction env sims rec coords k unknown m y rule: run_loop.raw_induct[rotated 1, consumes 1])
    case (1 rl env sims rec coords k unknown m y)
    from "1.hyps" show ?case
    proof (cases rule: run_loop_cases)
      case exit
      then show ?thesis by simp
    next
      case (break m1)
      then show ?thesis by simp
    next
      case (error u1 m1 e)
      then show ?thesis using generateSimulations_Inl[OF error(4)] by simp
    next
      case (round u1 m1 ids m2 success m3)
      show ?thesis by (rule "1.IH"[OF round(6)])
    qed
  qed
  from this[OF assms] show ?thesis by simp
qed


lemma run_loop_Inr:
  assumes "run_loop env sims rec coords k unknown m = Some (Inr (u, k', m'))"
  shows "max_corrupted m' = max_corrupted m \<and> max_failures m' = max_failures m \<and> k \<le> k' \<and>
         ((loop_condition m' \<and> u = Some [] \<and> batchExtract (env k') sims = []) \<or>
          (\<not> loop_condition m' \<and>
             ((k' = k \<and> u = unknown \<and> m' = m) \<or>
              (k < k' \<and> u = Some (batchExtract (env (k' - 1)) sims) \<and>
               batchExtract (env (k' - 1)) sims \<noteq> []))))"
proof -
  have "\<forall>u k' m'. y = Inr (u, k', m') \<longrightarrow>
         max_corrupted m' = max_corrupted m \<and> max_failures m' = max_failures m \<and> k \<le> k' \<and>
         ((loop_condition m' \<and> u = Some [] \<and> batchExtract (env k') sims = []) \<or>
          (\<not> loop_condition m' \<and>
             ((k' = k \<and> u = unknown \<and> m' = m) \<or>
              (k < k' \<and> u = Some (batchExtract (env (k' - 1)) sims) \<and>
               batchExtract (env (k' - 1)) sims \<noteq> []))))"
    if "run_loop env sims rec coords k unknown m = Some y" for y
    using that
  proof (induction env sims rec coords k unknown m y rule: run_loop.raw_induct[rotated 1, consumes 1])
    case (1 rl env sims rec coords k unknown m y)
    from "1.hyps" show ?case
    proof (cases rule: run_loop_cases)
      case exit
      then show ?thesis by simp
    next
      case (break m1)
      have "same_counters m m1" "batchExtract (env k) sims = []"
        using extractSimulations_facts[of "env k" sims m] break(2) by simp_all
      then show ?thesis using break loop_condition_cong[of m m1]
        by (simp add: same_counters_def)
    next
      case (error u1 m1 e)
      then show ?thesis by simp
    next
      case (round u1 m1 ids m2 success m3)
      have u1: "u1 = batchExtract (env k) sims" and sc: "same_counters m m3"
        using round_state_facts[OF round(2,4,5)] by simp_all
      have mx: "max_corrupted (after_wait (env k) u1 success m3) = max_corrupted m"
        "max_failures (after_wait (env k) u1 success m3) = max_failures m"
        using sc by (simp_all add: after_wait_fields same_counters_def)
      show ?thesis
      proof (intro allI impI)
        fix u k' m' assume y: "y = Inr (u, k', m')"
        note ih = "1.IH"[OF round(6), rule_format, OF y]
        have a: "max_corrupted m' = max_corrupted m \<and> max_failures m' = max_failures m \<and> k \<le> k'"
          using ih mx by simp
        from ih[THEN conjunct2, THEN conjunct2, THEN conjunct2] consider
            (brk) "loop_condition m'" "u = Some []" "batchExtract (env k') sims = []"
          | (now) "\<not> loop_condition m'" "k' = Suc k" "u = Some u1"
          | (later) "\<not> loop_condition m'" "Suc k < k'" "u = Some (batchExtract (env (k' - 1)) sims)"
              "batchExtract (env (k' - 1)) sims \<noteq> []"
          by blast
        then have b: "(loop_condition m' \<and> u = Some [] \<and> batchExtract (env k') sims = []) \<or>
          (\<not> loop_condition m' \<and>
             ((k' = k \<and> u = unknown \<and> m' = m) \<or>
              (k < k' \<and> u = Some (batchExtract (env (k' - 1)) sims) \<and>
               batchExtract (env (k' - 1)) sims \<noteq> [])))"
        proof cases
          case brk
          then show ?thesis by blast
        next
          case now
          have "k < k'" "k' - 1 = k" using now(2) by simp_all
          then show ?thesis using now u1 round(3) by simp
        next
          case later
          have "k < k'" using later(2) by simp
          then show ?thesis using later by blast
        qed
        show "max_corrupted m' = max_corrupted m \<and> max_failures m' = max_failures m \<and> k \<le> k' \<and>
         ((loop_condition m' \<and> u = Some [] \<and> batchExtract (env k') sims = []) \<or>
          (\<not> loop_condition m' \<and>
             ((k' = k \<and> u = unknown \<and> m' = m) \<or>
              (k < k' \<and> u = Some (batchExtract (env (k' - 1)) sims) \<and>
               batchExtract (env (k' - 1)) sims \<noteq> []))))"
          using a b by blast
      qed
    qed
  qed
  from this[OF assms] show ?thesis by simp
qed


lemma generateSimulations_found:
  assumes "script_to_launch
             [k. (k, s) \<leftarrow> enumerate 0 (subgroups_skeletons rec @ wholegroup_skeletons rec), s = name coords]
             (generate r sims) coords = Inr s"
  shows "\<exists>m'. generateSimulations r sims rec coords m = Inr (execute r (finalpath s), m')"
  using assms by (simp add: generateSimulations_def Let_def)

lemma round_fails_step:
  assumes "round_fails env sims rec coords k" and "loop_condition m"
  shows "\<exists>m3. same_counters m m3 \<and>
           run_loop env sims rec coords k unknown m =
           run_loop env sims rec coords (Suc k) (Some (batchExtract (env k) sims))
             (after_wait (env k) (batchExtract (env k) sims) False m3)"
proof -
  let ?u = "batchExtract (env k) sims"
  obtain s n where s: "script_to_launch
               [k. (k, s) \<leftarrow> enumerate 0 (subgroups_skeletons rec @ wholegroup_skeletons rec), s = name coords]
               (generate (env k) ?u) coords = Inr s"
    and n: "first_terminal (job_states (env k)) (execute (env k) (finalpath s)) n"
    and f: "failed (job_states (env k) n) \<noteq> []" and ne: "?u \<noteq> []"
    using assms(1) unfolding round_fails_def by blast
  obtain m1 where ex: "extractSimulations (env k) sims m = (?u, m1)"
    using extractSimulations_facts[of "env k" sims m] by (cases "extractSimulations (env k) sims m") simp
  obtain m2 where g: "generateSimulations (env k) ?u rec coords m1 = Inr (execute (env k) (finalpath s), m2)"
    using generateSimulations_found[OF s] by blast
  obtain m3 where w: "waitForJobs (job_states (env k)) (execute (env k) (finalpath s)) m2 = Some (False, m3)"
    using waitForJobs_first_terminal[OF n, of m2] f by auto
  have "same_counters m m3" using round_state_facts(2)[OF ex g w] .
  moreover have "run_loop env sims rec coords k unknown m =
           run_loop env sims rec coords (Suc k) (Some ?u) (after_wait (env k) ?u False m3)"
    using run_loop_round[where env = env and k = k, OF assms(2) ex ne g w] .
  ultimately show ?thesis by blast
qed

lemma run_loop_failing_rounds_never_stop:
  assumes "max_failures m < 0"
    and "max_corrupted m < 0 \<or> corruptions_counter m \<le> max_corrupted m"
    and "\<forall>j\<ge>k. round_fails env sims rec coords j \<and> batchAdd (env j) (batchExtract (env j) sims) = 0"
  shows "run_loop env sims rec coords k unknown m = None"
proof (cases "run_loop env sims rec coords k unknown m")
  case None
  then show ?thesis .
next
  case (Some y)
  have "max_failures m < 0 \<longrightarrow> (max_corrupted m < 0 \<or> corruptions_counter m \<le> max_corrupted m) \<longrightarrow>
        (\<forall>j\<ge>k. round_fails env sims rec coords j \<and> batchAdd (env j) (batchExtract (env j) sims) = 0) \<longrightarrow> False"
    using Some
  proof (induction env sims rec coords k unknown m y rule: run_loop.raw_induct[rotated 1, consumes 1])
    case (1 rl env sims rec coords k unknown m y)
    show ?case
    proof (intro impI)
      assume mf: "max_failures m < 0"
        and mc: "max_corrupted m < 0 \<or> corruptions_counter m \<le> max_corrupted m"
        and rf: "\<forall>j\<ge>k. round_fails env sims rec coords j \<and> batchAdd (env j) (batchExtract (env j) sims) = 0"
      have lc: "loop_condition m" using mf mc by (simp add: loop_condition_def)
      have rk: "round_fails env sims rec coords k" and ak: "batchAdd (env k) (batchExtract (env k) sims) = 0"
        using rf by simp_all
      from "1.hyps" show False
      proof (cases rule: run_loop_cases)
        case exit
        then show ?thesis using lc by simp
      next
        case (break m1)
        then show ?thesis using rk extractSimulations_facts[of "env k" sims m]
          by (simp add: round_fails_def)
      next
        case (error u1 m1 e)
        have u1: "u1 = batchExtract (env k) sims"
          using extractSimulations_facts[of "env k" sims m] error(2) by simp
        obtain s where "script_to_launch
               [k. (k, s) \<leftarrow> enumerate 0 (subgroups_skeletons rec @ wholegroup_skeletons rec), s = name coords]
               (generate (env k) u1) coords = Inr s"
          using rk unfolding round_fails_def u1 by blast
        from generateSimulations_found[OF this, of m1] error(4) show ?thesis by simp
      next
        case (round u1 m1 ids m2 success m3)
        have u1: "u1 = batchExtract (env k) sims" and sc: "same_counters m m3"
          using round_state_facts[OF round(2,4,5)] by simp_all
        let ?m' = "after_wait (env k) u1 success m3"
        have "max_failures ?m' < 0" using sc mf by (simp add: after_wait_fields same_counters_def)
        moreover have "max_corrupted ?m' < 0 \<or> corruptions_counter ?m' \<le> max_corrupted ?m'"
          using sc mc ak u1 by (simp add: after_wait_fields same_counters_def)
        moreover have "\<forall>j\<ge>Suc k. round_fails env sims rec coords j \<and> batchAdd (env j) (batchExtract (env j) sims) = 0"
          using rf by simp
        ultimately show False using "1.IH"[OF round(6)] by blast
      qed
    qed
  qed
  then show ?thesis using assms by blast
qed

lemma parseScriptToLaunch_Inl: "parseScriptToLaunch ion opt = Inl e \<Longrightarrow> e = ValueError"
proof (cases "\<exists>p \<in> set (rsplit CHR '':'' 2 opt). ion p = None")
  case True
  assume e: "parseScriptToLaunch ion opt = Inl e"
  obtain k where "k < length (rsplit CHR '':'' 2 opt)" "ion (rsplit CHR '':'' 2 opt ! k) = None"
      "\<forall>j. k < j \<and> j < length (rsplit CHR '':'' 2 opt) \<longrightarrow> ion (rsplit CHR '':'' 2 opt ! j) \<noteq> None"
    using last_none_index[OF True] by blast
  from parseScriptToLaunch_cut[OF this] e show ?thesis by simp
next
  case False
  assume e: "parseScriptToLaunch ion opt = Inl e"
  from False have "\<forall>p \<in> set (rsplit CHR '':'' 2 opt). ion p \<noteq> None" by simp
  from parseScriptToLaunch_all_int[OF this] e show ?thesis by simp
qed

lemma parseScriptToLaunch_Inr_integers:
  assumes "parseScriptToLaunch ion opt = Inr c"
  shows "skeleton c \<noteq> None \<and> script c \<noteq> None"
proof (cases "\<exists>p \<in> set (rsplit CHR '':'' 2 opt). ion p = None")
  case True
  let ?ps = "rsplit CHR '':'' 2 opt"
  obtain k where k: "k < length ?ps" "ion (?ps ! k) = None"
      "\<forall>j. k < j \<and> j < length ?ps \<longrightarrow> ion (?ps ! j) \<noteq> None"
    using last_none_index[OF True] by blast
  let ?xs = "map ion (drop (Suc k) ?ps) @ [Some (- 1), Some (- 1)]"
  have c: "c = \<lparr>name = join CHR '':'' (take (Suc k) ?ps), skeleton = ?xs ! 0, script = ?xs ! 1\<rparr>"
    using parseScriptToLaunch_cut[OF k] assms by simp
  have nn: "\<forall>x \<in> set ?xs. x \<noteq> None"
  proof
    fix x assume "x \<in> set ?xs"
    then consider "x \<in> set (map ion (drop (Suc k) ?ps))" | "x = Some (- 1)" by auto
    then show "x \<noteq> None"
    proof cases
      case 1
      then obtain i where i: "i < length (drop (Suc k) ?ps)" "x = ion (drop (Suc k) ?ps ! i)"
        by (auto simp: in_set_conv_nth)
      then have "x = ion (?ps ! (Suc k + i))" "Suc k + i < length ?ps" by auto
      then show ?thesis using k(3) by simp
    next
      case 2
      then show ?thesis by simp
    qed
  qed
  have l: "0 < length ?xs" "1 < length ?xs" by simp_all
  have "?xs ! 0 \<noteq> None" using nn nth_mem[OF l(1)] by blast
  moreover have "?xs ! 1 \<noteq> None" using nn nth_mem[OF l(2)] by blast
  ultimately show ?thesis unfolding c by (simp del: One_nat_def)
next
  case False
  then have "\<forall>p \<in> set (rsplit CHR '':'' 2 opt). ion p \<noteq> None" by simp
  from parseScriptToLaunch_all_int[OF this] assms show ?thesis by simp
qed


lemma funpow_triggerEvent: "(triggerEvent e ^^ n) m = m\<lparr>events := events m @ replicate n e\<rparr>"
proof (induction n)
  case 0
  show ?case by simp
next
  case (Suc n)
  have "(triggerEvent e ^^ Suc n) m = triggerEvent e ((triggerEvent e ^^ n) m)" by simp
  also have "\<dots> = triggerEvent e (m\<lparr>events := events m @ replicate n e\<rparr>)" by (simp only: Suc)
  also have "\<dots> = m\<lparr>events := events m @ replicate (Suc n) e\<rparr>"
    by (simp add: triggerEvent_def replicate_append_same)
  finally show ?case .
qed

lemma fold_download_open:
  "remote_folder_open m \<Longrightarrow>
     fold (\<lambda>simulation m. triggerEvent DownloadProgress (remote_folder m)) sims m =
     m\<lparr>events := events m @ replicate (length sims) DownloadProgress\<rparr>"
proof (induction sims arbitrary: m)
  case Nil
  show ?case by simp
next
  case (Cons a sims)
  have "remote_folder_open (triggerEvent DownloadProgress (remote_folder m))"
    by (simp add: triggerEvent_fields remote_folder_fields)
  from Cons.IH[OF this] Cons.prems show ?case
    by (simp add: triggerEvent_def remote_folder_def replicate_app_Cons_same)
qed

lemma after_wait_events:
  assumes "remote_folder_open m3"
  shows "events (after_wait r u success m3) =
           events m3 @ [DownloadStart u] @ replicate (length u) DownloadProgress @
           [DownloadEnd, AdditionStart u] @ replicate (addition_callbacks r) AdditionProgress @
           [AdditionEnd, DeleteScripts]"
proof -
  let ?m = "if \<not> success then m3\<lparr>failures_counter := failures_counter m3 + 1\<rparr> else m3"
  have o: "remote_folder_open (triggerEvent (DownloadStart u) ?m)" using assms by (simp add: triggerEvent_def)
  show ?thesis
    unfolding after_wait_def downloadSimulations_def Let_def prod.case
    by (simp add: fold_download_open[OF o] funpow_triggerEvent)
       (simp add: triggerEvent_def remote_folder_def assms)
qed

lemma loop_condition_reset:
  "corruptions_counter m = 0 \<Longrightarrow> failures_counter m = 0 \<Longrightarrow> max_failures m = 0 \<Longrightarrow> loop_condition m"
  by (auto simp: loop_condition_def)

lemma run_loop_one_failing_round:
  assumes "max_failures m = 0" "corruptions_counter m = 0" "failures_counter m = 0"
    and "round_fails env sims rec coords 0"
  shows "\<exists>m'. run_loop env sims rec coords 0 unknown m =
                Some (Inr (Some (batchExtract (env 0) sims), 1, m')) \<and>
              failures_counter m' = 1 \<and> \<not> loop_condition m'"
proof -
  have lc: "loop_condition m" using assms(1,2,3) by (rule loop_condition_reset[rotated 2])
  obtain m3 where sc: "same_counters m m3"
    and step: "run_loop env sims rec coords 0 unknown m =
           run_loop env sims rec coords (Suc 0) (Some (batchExtract (env 0) sims))
             (after_wait (env 0) (batchExtract (env 0) sims) False m3)"
    using round_fails_step[OF assms(4) lc, of unknown] by blast
  let ?m' = "after_wait (env 0) (batchExtract (env 0) sims) False m3"
  have f: "failures_counter ?m' = 1" "max_failures ?m' = 0"
    using sc assms(1,3) by (simp_all add: after_wait_fields same_counters_def)
  then have nlc: "\<not> loop_condition ?m'" by (simp add: loop_condition_def)
  have "run_loop env sims rec coords 0 unknown m = Some (Inr (Some (batchExtract (env 0) sims), 1, ?m'))"
    unfolding step using run_loop_exit[OF nlc] by simp
  then show ?thesis using f(1) nlc by blast
qed


lemma run_Inl:
  assumes "run ion env sims rec m = Some (Inl e)"
  shows "e = ValueError \<or> (\<exists>c. parseScriptToLaunch ion (launch rec) = Inr c \<and> e = ScriptNotFoundError c)"
proof (cases "parseScriptToLaunch ion (launch rec)")
  case (Inl e')
  then have "e' = ValueError" by (rule parseScriptToLaunch_Inl)
  then show ?thesis using assms Inl by (simp add: run_def)
next
  case (Inr coords)
  let ?m0 = "(triggerEvent RunStart m)\<lparr>corruptions_counter := 0, failures_counter := 0\<rparr>"
  have ints: "skeleton coords \<noteq> None \<and> script coords \<noteq> None"
    using parseScriptToLaunch_Inr_integers[OF Inr] .
  have lc0: "loop_condition ?m0" by (auto simp: loop_condition_def triggerEvent_def)
  obtain y where y: "run_loop env sims rec coords 0 None ?m0 = Some y"
    using assms Inr unfolding run_def by (cases "run_loop env sims rec coords 0 None ?m0") simp_all
  show ?thesis
  proof (cases y)
    case (Inl e')
    then have "e' = e" using assms Inr y by (simp add: run_def)
    then show ?thesis using run_loop_Inl[of env sims rec coords 0 None ?m0 e] y Inl Inr ints by auto
  next
    case r: (Inr p)
    obtain uo k' m1 where p: "p = (uo, k', m1)" by (cases p)
    have "uo = None" using assms Inr y r p unfolding run_def by (cases uo) simp_all
    then have "run_loop env sims rec coords 0 None ?m0 = Some (Inr (None, k', m1))" using y r p by simp
    from run_loop_Inr[OF this] lc0 show ?thesis by auto
  qed
qed

text \<open>
  The loop as a whole: when the rounds from \<open>k\<close> on can be completed as long as the
  condition of the loop holds, the loop returns, with both counters and the events of
  every round accounted for.
\<close>

lemma events_extend_refl: "events_extend m m"
  by (simp add: events_extend_def)

lemma events_extend_trans: "events_extend a b \<Longrightarrow> events_extend b c \<Longrightarrow> events_extend a c"
  by (auto simp: events_extend_def)

lemma events_extend_triggerEvent: "events_extend m (triggerEvent e m)"
  by (simp add: events_extend_def triggerEvent_def)

lemma events_extend_remote_folder: "events_extend m (remote_folder m)"
  by (simp add: events_extend_def remote_folder_def triggerEvent_def)

lemma events_extend_extractSimulations: "events_extend m (snd (extractSimulations r sims m))"
  by (simp add: extractSimulations_def Let_def funpow_triggerEvent events_extend_def triggerEvent_def)

lemma events_extend_generateSimulations:
  assumes "generateSimulations r sims rec coords m = Inr (ids, m')"
  shows "events_extend m m'"
proof -
  let ?a = "triggerEvent GenerateStart m"
  let ?b = "remote_folder ?a"
  let ?c = "remote_folder ?b"
  let ?d = "remote_folder ?c"
  have m': "m' = triggerEvent GenerateEnd ?d"
    using assms unfolding generateSimulations_def Let_def by (auto split: sum.splits)
  have "events_extend m ?a" by (rule events_extend_triggerEvent)
  then have "events_extend m ?b" by (rule events_extend_trans[OF _ events_extend_remote_folder])
  then have "events_extend m ?c" by (rule events_extend_trans[OF _ events_extend_remote_folder])
  then have "events_extend m ?d" by (rule events_extend_trans[OF _ events_extend_remote_folder])
  then show ?thesis unfolding m' by (rule events_extend_trans[OF _ events_extend_triggerEvent])
qed

lemma events_extend_wait_loop:
  assumes "wait_loop states jobs_ids n previous_states m = Some (j, m')"
  shows "events_extend m m'"
proof -
  have "events_extend m (snd y)"
    if "wait_loop states jobs_ids n previous_states m = Some y" for y
    using that
  proof (induction states jobs_ids n previous_states m y rule: wait_loop.raw_induct[rotated 1, consumes 1])
    case (1 wl states jobs_ids n previous_states m y)
    let ?m1 = "triggerEvent (WaitProgress (states n)) m"
    show ?case
    proof (cases "Some (states n) \<noteq> previous_states")
      case changed: True
      show ?thesis
      proof (cases "set (succeed (states n) @ failed (states n)) = set jobs_ids")
        case True
        then have "y = (states n, ?m1)" using "1.hyps" changed by simp
        then show ?thesis by (simp add: events_extend_triggerEvent)
      next
        case False
        then have "wl states jobs_ids (Suc n) (Some (states n)) ?m1 = Some y"
          using "1.hyps" changed by simp
        from "1.IH"[OF this] show ?thesis
          by (rule events_extend_trans[OF events_extend_triggerEvent])
      qed
    next
      case False
      then have "wl states jobs_ids (Suc n) (Some (states n)) m = Some y"
        using "1.hyps" by simp
      from "1.IH"[OF this] show ?thesis .
    qed
  qed
  from this[OF assms] show ?thesis by simp
qed

lemma events_extend_waitForJobs:
  assumes "waitForJobs states jobs_ids m = Some (b, m')"
  shows "events_extend m m'"
proof -
  let ?m0 = "remote_folder (triggerEvent (WaitStart jobs_ids) m)"
  obtain j m1 where m1: "wait_loop states jobs_ids 0 None ?m0 = Some (j, m1)"
    and m': "m' = triggerEvent WaitEnd m1"
    using assms by (auto simp: waitForJobs_def split: option.splits)
  have "events_extend m ?m0"
    by (rule events_extend_trans[OF events_extend_triggerEvent events_extend_remote_folder])
  moreover have "events_extend ?m0 m1" using events_extend_wait_loop[OF m1] .
  moreover have "events_extend m1 m'" unfolding m' by (rule events_extend_triggerEvent)
  ultimately show ?thesis by (blast intro: events_extend_trans)
qed

lemma first_terminal_unique:
  "first_terminal states ids n \<Longrightarrow> first_terminal states ids n' \<Longrightarrow> n = n'"
proof (rule ccontr)
  assume a: "first_terminal states ids n" "first_terminal states ids n'" and ne: "n \<noteq> n'"
  then consider "n < n'" | "n' < n" by linarith
  then show False
  proof cases
    case 1
    then show ?thesis using a by (simp add: first_terminal_def)
  next
    case 2
    then show ?thesis using a by (simp add: first_terminal_def)
  qed
qed

lemma round_fails_iff:
  assumes "script_to_launch
               [k. (k, s) \<leftarrow> enumerate 0 (subgroups_skeletons rec @ wholegroup_skeletons rec), s = name coords]
               (generate (env k) (batchExtract (env k) sims)) coords = Inr s"
    and "first_terminal (job_states (env k)) (execute (env k) (finalpath s)) n"
    and "batchExtract (env k) sims \<noteq> []"
  shows "round_fails env sims rec coords k \<longleftrightarrow> failed (job_states (env k) n) \<noteq> []"
proof
  assume "round_fails env sims rec coords k"
  then obtain s' n' where
    s': "script_to_launch
               [k. (k, s) \<leftarrow> enumerate 0 (subgroups_skeletons rec @ wholegroup_skeletons rec), s = name coords]
               (generate (env k) (batchExtract (env k) sims)) coords = Inr s'"
    and n': "first_terminal (job_states (env k)) (execute (env k) (finalpath s')) n'"
    and f: "failed (job_states (env k) n') \<noteq> []"
    unfolding round_fails_def by blast
  have "s' = s" using s' assms(1) by simp
  then have "n' = n" using n' assms(2) first_terminal_unique by blast
  then show "failed (job_states (env k) n) \<noteq> []" using f by simp
next
  assume "failed (job_states (env k) n) \<noteq> []"
  then show "round_fails env sims rec coords k"
    unfolding round_fails_def using assms by blast
qed

lemma loop_condition_with_counts:
  assumes "max_corrupted m' = max_corrupted m" "max_failures m' = max_failures m"
    and "failures_counter m' = failures_counter m + int a" "corruptions_counter m' = corruptions_counter m + int b"
  shows "loop_condition (with_counts m' f c) = loop_condition (with_counts m (a + f) (b + c))"
  unfolding loop_condition_def with_counts_def using assms by (simp add: add.assoc)

lemma with_counts_0: "with_counts m 0 0 = m"
  by (simp add: with_counts_def)

lemma counts_Cons:
  assumes "k < K"
  shows "failing_rounds env sims rec coords k K =
           (if round_fails env sims rec coords k then 1 else 0) + failing_rounds env sims rec coords (Suc k) K"
    and "rejecting_rounds env sims k K =
           (if batchAdd (env k) (batchExtract (env k) sims) \<noteq> 0 then 1 else 0) + rejecting_rounds env sims (Suc k) K"
  unfolding failing_rounds_def rejecting_rounds_def upt_conv_Cons[OF assms] by simp_all

lemma counts_Nil: "failing_rounds env sims rec coords k k = 0" "rejecting_rounds env sims k k = 0"
  by (simp_all add: failing_rounds_def rejecting_rounds_def)

lemma after_wait_download_events:
  "remote_folder_open m3 \<Longrightarrow> events (after_wait r u success m3) = events m3 @ download_events r u"
  using after_wait_events[of m3 r u success] by (simp add: download_events_def)

lemma run_loop_stops_at_once:
  assumes "\<not> loop_condition m \<or> batchExtract (env k) sims = []"
  shows "\<exists>m'. run_loop env sims rec coords k u m =
               Some (Inr (if loop_condition m then Some [] else u, k, m')) \<and>
             same_counters m m' \<and> events_extend m m'"
proof (cases "loop_condition m")
  case True
  then have e: "batchExtract (env k) sims = []" using assms by simp
  let ?m' = "snd (extractSimulations (env k) sims m)"
  have "run_loop env sims rec coords k u m = Some (Inr (Some [], k, ?m'))"
    using run_loop_break[where env = env and k = k, OF True e] .
  moreover have "same_counters m ?m'" using extractSimulations_facts[of "env k" sims m] by simp
  moreover have "events_extend m ?m'" by (rule events_extend_extractSimulations)
  ultimately show ?thesis using True by auto
next
  case False
  have "run_loop env sims rec coords k u m = Some (Inr (u, k, m))"
    using run_loop_exit[OF False] .
  then show ?thesis using False by (auto simp: same_counters_refl events_extend_refl)
qed

lemma run_loop_one_round:
  assumes c: "round_completes env sims rec coords k" and lc: "loop_condition m"
  shows "\<exists>m2. run_loop env sims rec coords k u m =
                run_loop env sims rec coords (Suc k) (Some (batchExtract (env k) sims)) m2 \<and>
              max_corrupted m2 = max_corrupted m \<and> max_failures m2 = max_failures m \<and>
              failures_counter m2 =
                failures_counter m + int (if round_fails env sims rec coords k then 1 else 0) \<and>
              corruptions_counter m2 =
                corruptions_counter m +
                int (if batchAdd (env k) (batchExtract (env k) sims) \<noteq> 0 then 1 else 0) \<and>
              (\<exists>pre. events_extend m pre \<and>
                 events m2 = events pre @ download_events (env k) (batchExtract (env k) sims))"
proof -
  let ?u = "batchExtract (env k) sims"
  obtain s n where s: "script_to_launch
               [k. (k, s) \<leftarrow> enumerate 0 (subgroups_skeletons rec @ wholegroup_skeletons rec), s = name coords]
               (generate (env k) ?u) coords = Inr s"
    and n: "first_terminal (job_states (env k)) (execute (env k) (finalpath s)) n"
    and ne: "?u \<noteq> []"
    using c unfolding round_completes_def by blast
  obtain m1 where ex: "extractSimulations (env k) sims m = (?u, m1)"
    using extractSimulations_facts[of "env k" sims m] by (cases "extractSimulations (env k) sims m") simp
  obtain m2 where g: "generateSimulations (env k) ?u rec coords m1 = Inr (execute (env k) (finalpath s), m2)"
    using generateSimulations_found[OF s] by blast
  let ?b = "failed (job_states (env k) n) = []"
  obtain m3 where w: "waitForJobs (job_states (env k)) (execute (env k) (finalpath s)) m2 = Some (?b, m3)"
    and op: "remote_folder_open m3"
    using waitForJobs_first_terminal[OF n, of m2] by blast
  let ?m = "after_wait (env k) ?u ?b m3"
  have step: "run_loop env sims rec coords k u m = run_loop env sims rec coords (Suc k) (Some ?u) ?m"
    using run_loop_round[where env = env and k = k, OF lc ex ne g w] .
  have sc: "same_counters m m3" using round_state_facts(2)[OF ex g w] .
  have fails: "round_fails env sims rec coords k \<longleftrightarrow> \<not> ?b"
    using round_fails_iff[where env = env and k = k, OF s n ne] by simp
  have mx: "max_corrupted ?m = max_corrupted m" "max_failures ?m = max_failures m"
    using sc by (simp_all add: after_wait_fields same_counters_def)
  have fc: "failures_counter ?m = failures_counter m + int (if round_fails env sims rec coords k then 1 else 0)"
    using sc fails by (simp add: after_wait_fields same_counters_def)
  have cc: "corruptions_counter ?m =
      corruptions_counter m + int (if batchAdd (env k) ?u \<noteq> 0 then 1 else 0)"
    using sc by (simp add: after_wait_fields same_counters_def)
  have "events_extend m m1" using events_extend_extractSimulations[of m "env k" sims] ex by simp
  moreover have "events_extend m1 m2" using events_extend_generateSimulations[OF g] .
  moreover have "events_extend m2 m3" using events_extend_waitForJobs[OF w] .
  ultimately have ee: "events_extend m m3" by (blast intro: events_extend_trans)
  have ev: "events ?m = events m3 @ download_events (env k) ?u"
    using after_wait_download_events[OF op] .
  have "\<exists>pre. events_extend m pre \<and> events ?m = events pre @ download_events (env k) ?u"
    using ee ev by blast
  then show ?thesis using step mx fc cc by blast
qed

lemma run_loop_total:
  assumes "\<forall>j. k \<le> j \<and> j < k + n \<longrightarrow>
             round_completes env sims rec coords j \<and>
             loop_condition (with_counts m (failing_rounds env sims rec coords k j) (rejecting_rounds env sims k j))"
    and "\<not> loop_condition (with_counts m (failing_rounds env sims rec coords k (k + n))
                                 (rejecting_rounds env sims k (k + n))) \<or>
         batchExtract (env (k + n)) sims = []"
  shows "\<exists>m'. run_loop env sims rec coords k u m =
               Some (Inr (if loop_condition (with_counts m (failing_rounds env sims rec coords k (k + n))
                                               (rejecting_rounds env sims k (k + n)))
                          then Some []
                          else if n = 0 then u else Some (batchExtract (env (k + n - 1)) sims),
                          k + n, m')) \<and>
             max_corrupted m' = max_corrupted m \<and> max_failures m' = max_failures m \<and>
             failures_counter m' = failures_counter m + int (failing_rounds env sims rec coords k (k + n)) \<and>
             corruptions_counter m' = corruptions_counter m + int (rejecting_rounds env sims k (k + n)) \<and>
             events_extend m m' \<and>
             (\<forall>j. k \<le> j \<and> j < k + n \<longrightarrow>
                 (\<exists>pre post. events m' = pre @ download_events (env j) (batchExtract (env j) sims) @ post))"
  using assms
proof (induction n arbitrary: k m u)
  case 0
  have st: "\<not> loop_condition m \<or> batchExtract (env k) sims = []"
    using "0.prems"(2) by (simp add: counts_Nil with_counts_0)
  obtain m' where r: "run_loop env sims rec coords k u m =
               Some (Inr (if loop_condition m then Some [] else u, k, m'))"
    and sc: "same_counters m m'" and ee: "events_extend m m'"
    using run_loop_stops_at_once[where env = env and k = k, OF st] by blast
  show ?case
    using r sc ee by (intro exI[of _ m']) (auto simp: counts_Nil with_counts_0 same_counters_def)
next
  case (Suc n)
  let ?F = "\<lambda>a b. failing_rounds env sims rec coords a b"
  let ?C = "\<lambda>a b. rejecting_rounds env sims a b"
  let ?df = "if round_fails env sims rec coords k then 1 else 0 :: nat"
  let ?dc = "if batchAdd (env k) (batchExtract (env k) sims) \<noteq> 0 then 1 else 0 :: nat"
  let ?u1 = "batchExtract (env k) sims"
  have k: "round_completes env sims rec coords k" "loop_condition m"
    using Suc.prems(1)[rule_format, of k] by (simp_all add: counts_Nil with_counts_0)
  obtain M pre where step: "run_loop env sims rec coords k u m =
                run_loop env sims rec coords (Suc k) (Some ?u1) M"
    and mx: "max_corrupted M = max_corrupted m" "max_failures M = max_failures m"
    and fc: "failures_counter M = failures_counter m + int ?df"
    and cc: "corruptions_counter M = corruptions_counter m + int ?dc"
    and pre: "events_extend m pre" "events M = events pre @ download_events (env k) ?u1"
    using run_loop_one_round[OF k, of u] by blast
  have lcM: "loop_condition (with_counts M f c) = loop_condition (with_counts m (?df + f) (?dc + c))" for f c
    using loop_condition_with_counts[OF mx fc cc] .
  have split: "?F k j = ?df + ?F (Suc k) j" "?C k j = ?dc + ?C (Suc k) j" if "k < j" for j
    by (rule counts_Cons(1)[OF that], rule counts_Cons(2)[OF that])
  have rounds: "\<forall>j. Suc k \<le> j \<and> j < Suc k + n \<longrightarrow>
             round_completes env sims rec coords j \<and>
             loop_condition (with_counts M (?F (Suc k) j) (?C (Suc k) j))"
  proof (intro allI impI)
    fix j assume j: "Suc k \<le> j \<and> j < Suc k + n"
    then have "k \<le> j \<and> j < k + Suc n" and kj: "k < j" by simp_all
    from Suc.prems(1)[rule_format, OF this(1)]
    show "round_completes env sims rec coords j \<and>
             loop_condition (with_counts M (?F (Suc k) j) (?C (Suc k) j))"
      unfolding lcM split[OF kj] .
  qed
  have kK: "k < k + Suc n" by simp
  have eqK: "Suc k + n = k + Suc n" by simp
  have lcK: "loop_condition (with_counts M (?F (Suc k) (k + Suc n)) (?C (Suc k) (k + Suc n))) =
             loop_condition (with_counts m (?F k (k + Suc n)) (?C k (k + Suc n)))"
    unfolding lcM split[OF kK] ..
  have stop: "\<not> loop_condition (with_counts M (?F (Suc k) (Suc k + n)) (?C (Suc k) (Suc k + n))) \<or>
         batchExtract (env (Suc k + n)) sims = []"
    unfolding eqK using Suc.prems(2) unfolding lcK .
  obtain m' where r0: "run_loop env sims rec coords (Suc k) (Some ?u1) M =
               Some (Inr (if loop_condition (with_counts M (?F (Suc k) (Suc k + n)) (?C (Suc k) (Suc k + n)))
                          then Some []
                          else if n = 0 then Some ?u1 else Some (batchExtract (env (Suc k + n - 1)) sims),
                          Suc k + n, m'))"
    and mx': "max_corrupted m' = max_corrupted M" "max_failures m' = max_failures M"
    and fc0: "failures_counter m' = failures_counter M + int (?F (Suc k) (Suc k + n))"
    and cc0: "corruptions_counter m' = corruptions_counter M + int (?C (Suc k) (Suc k + n))"
    and ee': "events_extend M m'"
    and blocks': "\<forall>j. Suc k \<le> j \<and> j < Suc k + n \<longrightarrow>
                 (\<exists>pre post. events m' = pre @ download_events (env j) (batchExtract (env j) sims) @ post)"
    using Suc.IH[OF rounds stop, of "Some ?u1"] by blast
  note r = r0[unfolded eqK] and fc' = fc0[unfolded eqK] and cc' = cc0[unfolded eqK]
  have last: "(if n = 0 then Some ?u1 else Some (batchExtract (env (k + Suc n - 1)) sims)) =
              Some (batchExtract (env (k + Suc n - 1)) sims)"
    by (cases n) simp_all
  have res: "run_loop env sims rec coords k u m =
               Some (Inr (if loop_condition (with_counts m (?F k (k + Suc n)) (?C k (k + Suc n)))
                          then Some []
                          else if Suc n = 0 then u else Some (batchExtract (env (k + Suc n - 1)) sims),
                          k + Suc n, m'))"
    unfolding step r lcK last by simp
  have f: "failures_counter m' = failures_counter m + int (?F k (k + Suc n))"
    unfolding fc' fc split[OF kK] by simp
  have c: "corruptions_counter m' = corruptions_counter m + int (?C k (k + Suc n))"
    unfolding cc' cc split[OF kK] by simp
  obtain evs where evs: "events m' = events M @ evs" using ee' unfolding events_extend_def by blast
  have "events_extend pre M" using pre(2) unfolding events_extend_def by blast
  then have ee: "events_extend m m'" using pre(1) ee' by (blast intro: events_extend_trans)
  have blocks: "\<forall>j. k \<le> j \<and> j < k + Suc n \<longrightarrow>
                 (\<exists>pre post. events m' = pre @ download_events (env j) (batchExtract (env j) sims) @ post)"
  proof (intro allI impI)
    fix j assume j: "k \<le> j \<and> j < k + Suc n"
    show "\<exists>pre post. events m' = pre @ download_events (env j) (batchExtract (env j) sims) @ post"
    proof (cases "j = k")
      case True
      have "events m' = events pre @ download_events (env k) ?u1 @ evs"
        unfolding evs pre(2) by simp
      then show ?thesis unfolding True by blast
    next
      case False
      then have "Suc k \<le> j \<and> j < Suc k + n" using j by simp
      then show ?thesis using blocks' by blast
    qed
  qed
  have m: "max_corrupted m' = max_corrupted m" "max_failures m' = max_failures m"
    using mx mx' by simp_all
  show ?case
    by (intro exI[of _ m'] conjI) (fact res m f c ee blocks)+
qed

lemma round_fails_wait:
  assumes "round_fails env sims rec coords j"
  shows "round_completes env sims rec coords j \<and>
         (\<exists>s. script_to_launch
                 [k. (k, s) \<leftarrow> enumerate 0 (subgroups_skeletons rec @ wholegroup_skeletons rec), s = name coords]
                 (generate (env j) (batchExtract (env j) sims)) coords = Inr s \<and>
              (\<forall>m. \<exists>m'. waitForJobs (job_states (env j)) (execute (env j) (finalpath s)) m = Some (False, m')))"
proof -
  obtain s n where s: "script_to_launch
               [k. (k, s) \<leftarrow> enumerate 0 (subgroups_skeletons rec @ wholegroup_skeletons rec), s = name coords]
               (generate (env j) (batchExtract (env j) sims)) coords = Inr s"
    and n: "first_terminal (job_states (env j)) (execute (env j) (finalpath s)) n"
    and f: "failed (job_states (env j) n) \<noteq> []" and ne: "batchExtract (env j) sims \<noteq> []"
    using assms unfolding round_fails_def by blast
  have c: "round_completes env sims rec coords j"
    unfolding round_completes_def using s n ne by blast
  have "\<exists>m'. waitForJobs (job_states (env j)) (execute (env j) (finalpath s)) m = Some (False, m')" for m
    using waitForJobs_first_terminal[OF n, of m] f by auto
  then show ?thesis using c s by blast
qed

lemma round_succeeds_wait:
  assumes "round_completes env sims rec coords j" "\<not> round_fails env sims rec coords j"
  shows "\<exists>s. script_to_launch
                 [k. (k, s) \<leftarrow> enumerate 0 (subgroups_skeletons rec @ wholegroup_skeletons rec), s = name coords]
                 (generate (env j) (batchExtract (env j) sims)) coords = Inr s \<and>
              (\<forall>m. \<exists>m'. waitForJobs (job_states (env j)) (execute (env j) (finalpath s)) m = Some (True, m'))"
proof -
  obtain s n where s: "script_to_launch
               [k. (k, s) \<leftarrow> enumerate 0 (subgroups_skeletons rec @ wholegroup_skeletons rec), s = name coords]
               (generate (env j) (batchExtract (env j) sims)) coords = Inr s"
    and n: "first_terminal (job_states (env j)) (execute (env j) (finalpath s)) n"
    and ne: "batchExtract (env j) sims \<noteq> []"
    using assms(1) unfolding round_completes_def by blast
  have f: "failed (job_states (env j) n) = []"
    using round_fails_iff[where env = env and k = j, OF s n ne] assms(2) by simp
  have "\<exists>m'. waitForJobs (job_states (env j)) (execute (env j) (finalpath s)) m = Some (True, m')" for m
    using waitForJobs_first_terminal[OF n, of m] f by auto
  then show ?thesis using s by blast
qed







section \<open>A concrete run\<close>

lemma demo_launch: "parseScriptToLaunch intOrNone (launch demo_recipe) = Inr demo_coords"
  unfolding demo_recipe_def demo_coords_def by code_simp

lemma demo_script:
  "script_to_launch
     [k. (k, s) \<leftarrow> enumerate 0 (subgroups_skeletons demo_recipe @ wholegroup_skeletons demo_recipe),
         s = name demo_coords]
     (generate (demo_round fails rejected) sims) demo_coords =
   Inr \<lparr>localpath = ''scripts/build.sh'', finalpath = ''remote/build.sh''\<rparr>"
  by (simp add: demo_recipe_def demo_coords_def demo_round_def script_to_launch_def py_get_def)

lemma demo_first_terminal:
  "first_terminal (job_states (demo_round fails rejected)) [''j1'', ''j2''] 1"
  by (auto simp: first_terminal_def all_terminal_def demo_round_def)

lemma demo_round_fails: "round_fails (\<lambda>k. demo_round True rejected) [1, 2] demo_recipe demo_coords j"
  unfolding round_fails_def
proof (intro conjI exI)
  show "batchExtract (demo_round True rejected) [1, 2] \<noteq> []" by (simp add: demo_round_def)
  show "script_to_launch
     [k. (k, s) \<leftarrow> enumerate 0 (subgroups_skeletons demo_recipe @ wholegroup_skeletons demo_recipe),
         s = name demo_coords]
     (generate (demo_round True rejected) (batchExtract (demo_round True rejected) [1, 2])) demo_coords =
   Inr \<lparr>localpath = ''scripts/build.sh'', finalpath = ''remote/build.sh''\<rparr>"
    by (rule demo_script)
  show "first_terminal (job_states (demo_round True rejected))
     (execute (demo_round True rejected) (finalpath \<lparr>localpath = ''scripts/build.sh'', finalpath = ''remote/build.sh''\<rparr>)) 1"
    using demo_first_terminal[of True rejected] by (simp add: demo_round_def)
  show "failed (job_states (demo_round True rejected) 1) \<noteq> []" by (simp add: demo_round_def)
qed


lemma demo_run_fails:
  "\<exists>m'. run intOrNone (\<lambda>k. demo_round True 0) [1, 2] demo_recipe (demo_maker 0) = Some (Inr ([1, 2], m'))"
proof -
  let ?m0 = "(triggerEvent RunStart (demo_maker 0))\<lparr>corruptions_counter := 0, failures_counter := 0\<rparr>"
  have "max_failures ?m0 = 0" "corruptions_counter ?m0 = 0" "failures_counter ?m0 = 0"
    by (simp_all add: triggerEvent_def demo_maker_def)
  from run_loop_one_failing_round[OF this demo_round_fails[of 0 0], of None]
  obtain m1 where "run_loop (\<lambda>k. demo_round True 0) [1, 2] demo_recipe demo_coords 0 None ?m0 =
      Some (Inr (Some (batchExtract (demo_round True 0) [1, 2]), 1, m1))"
    by blast
  moreover have "batchExtract (demo_round True 0) [1, 2] = [1, 2]" by (simp add: demo_round_def)
  ultimately show ?thesis by (simp add: run_def demo_launch)
qed

lemma demo_env_completes:
  "round_completes (\<lambda>k. demo_round (fl k) (rej k)) [1, 2] demo_recipe demo_coords j"
  unfolding round_completes_def
proof (intro conjI exI)
  show "batchExtract (demo_round (fl j) (rej j)) [1, 2] \<noteq> []" by (simp add: demo_round_def)
  show "script_to_launch
     [k. (k, s) \<leftarrow> enumerate 0 (subgroups_skeletons demo_recipe @ wholegroup_skeletons demo_recipe),
         s = name demo_coords]
     (generate (demo_round (fl j) (rej j)) (batchExtract (demo_round (fl j) (rej j)) [1, 2])) demo_coords =
   Inr \<lparr>localpath = ''scripts/build.sh'', finalpath = ''remote/build.sh''\<rparr>"
    by (rule demo_script)
  show "first_terminal (job_states (demo_round (fl j) (rej j)))
     (execute (demo_round (fl j) (rej j))
        (finalpath \<lparr>localpath = ''scripts/build.sh'', finalpath = ''remote/build.sh''\<rparr>)) 1"
    using demo_first_terminal[of "fl j" "rej j"] by (simp add: demo_round_def)
qed

lemma demo_env_fails:
  "round_fails (\<lambda>k. demo_round (fl k) (rej k)) [1, 2] demo_recipe demo_coords j \<longleftrightarrow> fl j"
proof -
  let ?env = "\<lambda>k. demo_round (fl k) (rej k)"
  have s: "script_to_launch
     [k. (k, s) \<leftarrow> enumerate 0 (subgroups_skeletons demo_recipe @ wholegroup_skeletons demo_recipe),
         s = name demo_coords]
     (generate (?env j) (batchExtract (?env j) [1, 2])) demo_coords =
   Inr \<lparr>localpath = ''scripts/build.sh'', finalpath = ''remote/build.sh''\<rparr>"
    by (rule demo_script)
  have n: "first_terminal (job_states (?env j))
     (execute (?env j) (finalpath \<lparr>localpath = ''scripts/build.sh'', finalpath = ''remote/build.sh''\<rparr>)) 1"
    using demo_first_terminal[of "fl j" "rej j"] by (simp add: demo_round_def)
  have ne: "batchExtract (?env j) [1, 2] \<noteq> []" by (simp add: demo_round_def)
  have "round_fails ?env [1, 2] demo_recipe demo_coords j \<longleftrightarrow> failed (job_states (?env j) 1) \<noteq> []"
    by (rule round_fails_iff[where env = ?env and k = j, OF s n ne])
  then show ?thesis by (simp add: demo_round_def)
qed

lemma demo_env_counts:
  "failing_rounds (\<lambda>k. demo_round (fl k) (rej k)) [1, 2] demo_recipe demo_coords k K =
     length (filter fl [k..<K])"
  "rejecting_rounds (\<lambda>k. demo_round (fl k) (rej k)) [1, 2] k K =
     length (filter (\<lambda>j. rej j \<noteq> 0) [k..<K])"
proof -
  have f: "round_fails (\<lambda>k. demo_round (fl k) (rej k)) [1, 2] demo_recipe demo_coords = fl"
    by (rule ext) (rule demo_env_fails)
  show "failing_rounds (\<lambda>k. demo_round (fl k) (rej k)) [1, 2] demo_recipe demo_coords k K =
     length (filter fl [k..<K])"
    unfolding failing_rounds_def f ..
  show "rejecting_rounds (\<lambda>k. demo_round (fl k) (rej k)) [1, 2] k K =
     length (filter (\<lambda>j. rej j \<noteq> 0) [k..<K])"
    unfolding rejecting_rounds_def by (simp add: demo_round_def)
qed


text \<open>
  Claim C1. The loop of \<open>run\<close> continues while (\<open>max_corrupted\<close> is negative or the
  corruptions counter is at most \<open>max_corrupted\<close>) and (\<open>max_failures\<close> is negative or the
  failures counter is at most \<open>max_failures\<close>). So with \<open>max_failures = 0\<close> and both
  counters reset, a run whose first round fails completes exactly one round: the failures
  counter is 1, the condition is false and the unknown simulations of that round are
  returned. With a negative \<open>max_failures\<close> the condition does not depend on the failures
  counter, a loop that ends with simulations left has exceeded \<open>max_corrupted\<close>, and a
  run in which every round fails (and nothing is rejected) never leaves the loop.
\<close>

theorem run_loop_thresholds:
  "(loop_condition m \<longleftrightarrow>
      (max_corrupted m < 0 \<or> corruptions_counter m \<le> max_corrupted m) \<and>
      (max_failures m < 0 \<or> failures_counter m \<le> max_failures m)) \<and>
   (max_failures m = 0 \<and> corruptions_counter m = 0 \<and> failures_counter m = 0 \<and>
    round_fails env sims rec coords 0 \<longrightarrow>
      (\<exists>m'. run_loop env sims rec coords 0 unknown m =
               Some (Inr (Some (batchExtract (env 0) sims), 1, m')) \<and>
             failures_counter m' = 1 \<and> \<not> loop_condition m')) \<and>
   (max_failures m = 0 \<and> parseScriptToLaunch ion (launch rec) = Inr coords \<and>
    round_fails env sims rec coords 0 \<longrightarrow>
      (\<exists>m'. run ion env sims rec m = Some (Inr (batchExtract (env 0) sims, m')) \<and>
             failures_counter m' = 1)) \<and>
   (max_failures m < 0 \<longrightarrow>
      (loop_condition (m\<lparr>failures_counter := f\<rparr>) \<longleftrightarrow>
         max_corrupted m < 0 \<or> corruptions_counter m \<le> max_corrupted m)) \<and>
   (max_failures m < 0 \<and> run_loop env sims rec coords k unknown m = Some (Inr (u, k', m')) \<longrightarrow>
      (loop_condition m' \<and> u = Some []) \<or>
      (0 \<le> max_corrupted m \<and> max_corrupted m < corruptions_counter m')) \<and>
   (max_failures m < 0 \<and> (max_corrupted m < 0 \<or> corruptions_counter m \<le> max_corrupted m) \<and>
    (\<forall>j\<ge>k. round_fails env sims rec coords j \<and> batchAdd (env j) (batchExtract (env j) sims) = 0) \<longrightarrow>
      run_loop env sims rec coords k unknown m = None)"
proof -
  have c1: "loop_condition m \<longleftrightarrow>
      (max_corrupted m < 0 \<or> corruptions_counter m \<le> max_corrupted m) \<and>
      (max_failures m < 0 \<or> failures_counter m \<le> max_failures m)"
    by (simp add: loop_condition_def)
  have c2: "max_failures m = 0 \<and> corruptions_counter m = 0 \<and> failures_counter m = 0 \<and>
    round_fails env sims rec coords 0 \<longrightarrow>
      (\<exists>m'. run_loop env sims rec coords 0 unknown m =
               Some (Inr (Some (batchExtract (env 0) sims), 1, m')) \<and>
             failures_counter m' = 1 \<and> \<not> loop_condition m')"
    using run_loop_one_failing_round[of m env sims rec coords unknown] by blast
  have c3: "max_failures m = 0 \<and> parseScriptToLaunch ion (launch rec) = Inr coords \<and>
    round_fails env sims rec coords 0 \<longrightarrow>
      (\<exists>m'. run ion env sims rec m = Some (Inr (batchExtract (env 0) sims, m')) \<and>
             failures_counter m' = 1)"
  proof (intro impI)
    assume a: "max_failures m = 0 \<and> parseScriptToLaunch ion (launch rec) = Inr coords \<and>
      round_fails env sims rec coords 0"
    let ?m0 = "(triggerEvent RunStart m)\<lparr>corruptions_counter := 0, failures_counter := 0\<rparr>"
    have "max_failures ?m0 = 0" "corruptions_counter ?m0 = 0" "failures_counter ?m0 = 0"
      using a by (simp_all add: triggerEvent_def)
    from run_loop_one_failing_round[OF this, of env sims rec coords None] a
    obtain m1 where m1: "run_loop env sims rec coords 0 None ?m0 =
        Some (Inr (Some (batchExtract (env 0) sims), 1, m1))" "failures_counter m1 = 1"
      by blast
    have "run ion env sims rec m =
        Some (Inr (batchExtract (env 0) sims, triggerEvent (RunEnd (batchExtract (env 0) sims)) m1))"
      using a m1(1) by (simp add: run_def)
    moreover have "failures_counter (triggerEvent (RunEnd (batchExtract (env 0) sims)) m1) = 1"
      using m1(2) by (simp add: triggerEvent_fields)
    ultimately show "\<exists>m'. run ion env sims rec m = Some (Inr (batchExtract (env 0) sims, m')) \<and>
             failures_counter m' = 1" by blast
  qed
  have c4: "max_failures m < 0 \<longrightarrow>
      (loop_condition (m\<lparr>failures_counter := f\<rparr>) \<longleftrightarrow>
         max_corrupted m < 0 \<or> corruptions_counter m \<le> max_corrupted m)"
    by (simp add: loop_condition_def)
  have c5: "max_failures m < 0 \<and> run_loop env sims rec coords k unknown m = Some (Inr (u, k', m')) \<longrightarrow>
      (loop_condition m' \<and> u = Some []) \<or>
      (0 \<le> max_corrupted m \<and> max_corrupted m < corruptions_counter m')"
  proof (intro impI)
    assume a: "max_failures m < 0 \<and> run_loop env sims rec coords k unknown m = Some (Inr (u, k', m'))"
    then have r: "run_loop env sims rec coords k unknown m = Some (Inr (u, k', m'))" by simp
    from run_loop_Inr[OF r]
    have mx: "max_corrupted m' = max_corrupted m" "max_failures m' = max_failures m"
      and d: "(loop_condition m' \<and> u = Some []) \<or> \<not> loop_condition m'" by blast+
    from d show "(loop_condition m' \<and> u = Some []) \<or>
      (0 \<le> max_corrupted m \<and> max_corrupted m < corruptions_counter m')"
    proof
      assume "loop_condition m' \<and> u = Some []"
      then show ?thesis by simp
    next
      assume "\<not> loop_condition m'"
      then show ?thesis using mx a by (auto simp: loop_condition_def)
    qed
  qed
  have c6: "max_failures m < 0 \<and> (max_corrupted m < 0 \<or> corruptions_counter m \<le> max_corrupted m) \<and>
    (\<forall>j\<ge>k. round_fails env sims rec coords j \<and> batchAdd (env j) (batchExtract (env j) sims) = 0) \<longrightarrow>
      run_loop env sims rec coords k unknown m = None"
    using run_loop_failing_rounds_never_stop[of m k env sims rec coords unknown] by blast
  show ?thesis by (intro conjI) (fact c1 c2 c3 c4 c5 c6)+
qed

theorem run_loop_thresholds_witness:
  "max_failures (demo_maker 0) = 0 \<and>
   (\<exists>m'. run_loop (\<lambda>k. demo_round True 0) [1, 2] demo_recipe demo_coords 0 None (demo_maker 0) =
            Some (Inr (Some [1, 2], 1, m')) \<and> failures_counter m' = 1) \<and>
   (\<exists>m'. run intOrNone (\<lambda>k. demo_round True 0) [1, 2] demo_recipe (demo_maker 0) =
            Some (Inr ([1, 2], m')) \<and> failures_counter m' = 1) \<and>
   max_failures (demo_maker (- 1)) < 0 \<and> loop_condition ((demo_maker (- 1))\<lparr>failures_counter := 1000\<rparr>) \<and>
   run_loop (\<lambda>k. demo_round True 0) [1, 2] demo_recipe demo_coords 0 None (demo_maker (- 1)) = None"
proof -
  note t0 = run_loop_thresholds[of "demo_maker 0" "\<lambda>k. demo_round True 0" "[1, 2]" demo_recipe
      demo_coords None intOrNone 1000 0 None 0 "demo_maker 0"]
  note t1 = run_loop_thresholds[of "demo_maker (- 1)" "\<lambda>k. demo_round True 0" "[1, 2]" demo_recipe
      demo_coords None intOrNone 1000 0 None 0 "demo_maker 0"]
  have m0: "max_failures (demo_maker 0) = 0" "corruptions_counter (demo_maker 0) = 0"
    "failures_counter (demo_maker 0) = 0"
    by (simp_all add: demo_maker_def)
  have m1: "max_failures (demo_maker (- 1)) < 0" "max_corrupted (demo_maker (- 1)) < 0"
    by (simp_all add: demo_maker_def)
  have rf: "round_fails (\<lambda>k. demo_round True 0) [1, 2] demo_recipe demo_coords j" for j
    by (rule demo_round_fails)
  have ex: "batchExtract (demo_round True 0) [1, 2] = [1, 2]"
    "batchAdd (demo_round True 0) [1, 2] = 0" by (simp_all add: demo_round_def)
  have a: "\<exists>m'. run_loop (\<lambda>k. demo_round True 0) [1, 2] demo_recipe demo_coords 0 None (demo_maker 0) =
            Some (Inr (Some [1, 2], 1, m')) \<and> failures_counter m' = 1"
    using t0[THEN conjunct2, THEN conjunct1] m0 rf[of 0] ex(1) by auto
  have b: "\<exists>m'. run intOrNone (\<lambda>k. demo_round True 0) [1, 2] demo_recipe (demo_maker 0) =
            Some (Inr ([1, 2], m')) \<and> failures_counter m' = 1"
    using t0[THEN conjunct2, THEN conjunct2, THEN conjunct1] m0(1) rf[of 0] ex(1) demo_launch by auto
  have c: "loop_condition ((demo_maker (- 1))\<lparr>failures_counter := 1000\<rparr>)"
    using t1[THEN conjunct2, THEN conjunct2, THEN conjunct2, THEN conjunct1] m1 by simp
  have d: "run_loop (\<lambda>k. demo_round True 0) [1, 2] demo_recipe demo_coords 0 None (demo_maker (- 1)) = None"
  proof -
    have h: "\<forall>j\<ge>0. round_fails (\<lambda>k. demo_round True 0) [1, 2] demo_recipe demo_coords j \<and>
        batchAdd (demo_round True 0) (batchExtract (demo_round True 0) [1, 2]) = 0"
      using rf ex by simp
    show ?thesis
      using t1[THEN conjunct2, THEN conjunct2, THEN conjunct2, THEN conjunct2, THEN conjunct2] m1 h
      by blast
  qed
  show ?thesis using m0(1) m1(1) a b c d by (intro conjI)
qed






text \<open>
  Claim C8. \<open>waitForJobs\<close> returns only at the first poll at which the job ids in
  \<open>succeed\<close> and \<open>failed\<close> together are the set of the ids it was given, and it does return
  at such a poll; where no poll is such, it does not return. Its result is \<open>True\<close> exactly
  when \<open>failed\<close> is empty at that poll: in a round that fails the result is \<open>False\<close>, in a
  round that is completed and does not fail it is \<open>True\<close>. In the loop of \<open>run\<close>, when
  the rounds from \<open>k\<close> on can be completed as long as the condition of the loop holds, the
  loop returns after them; the failures counter has then grown by the number of rounds
  whose result was \<open>False\<close>, the corruptions counter by the number of rounds in which
  \<open>batchAdd\<close> rejected a simulation, and the events of every one of these rounds, failed
  or not, hold its events from \<open>download-start\<close> to \<open>addition-end\<close> and \<open>delete-scripts\<close>.
\<close>

theorem waitForJobs_until_all_terminal:
  "(waitForJobs states jobs_ids m = Some (b, m') \<longrightarrow>
      (\<exists>n. first_terminal states jobs_ids n \<and> b = (failed (states n) = []))) \<and>
   (waitForJobs states jobs_ids m = None \<longleftrightarrow> (\<forall>n. \<not> all_terminal (states n) jobs_ids)) \<and>
   (first_terminal states jobs_ids n \<longrightarrow>
      (\<exists>m'. waitForJobs states jobs_ids m = Some (failed (states n) = [], m'))) \<and>
   (round_fails env sims rec coords j \<longrightarrow>
      round_completes env sims rec coords j \<and>
      (\<exists>s. script_to_launch
              [k. (k, s) \<leftarrow> enumerate 0 (subgroups_skeletons rec @ wholegroup_skeletons rec), s = name coords]
              (generate (env j) (batchExtract (env j) sims)) coords = Inr s \<and>
           (\<forall>m. \<exists>m'. waitForJobs (job_states (env j)) (execute (env j) (finalpath s)) m = Some (False, m')))) \<and>
   (round_completes env sims rec coords j \<and> \<not> round_fails env sims rec coords j \<longrightarrow>
      (\<exists>s. script_to_launch
              [k. (k, s) \<leftarrow> enumerate 0 (subgroups_skeletons rec @ wholegroup_skeletons rec), s = name coords]
              (generate (env j) (batchExtract (env j) sims)) coords = Inr s \<and>
           (\<forall>m. \<exists>m'. waitForJobs (job_states (env j)) (execute (env j) (finalpath s)) m = Some (True, m')))) \<and>
   ((\<forall>j. k \<le> j \<and> j < k + rounds \<longrightarrow>
        round_completes env sims rec coords j \<and>
        loop_condition (with_counts m1 (failing_rounds env sims rec coords k j) (rejecting_rounds env sims k j))) \<and>
    (\<not> loop_condition (with_counts m1 (failing_rounds env sims rec coords k (k + rounds))
                                       (rejecting_rounds env sims k (k + rounds))) \<or>
     batchExtract (env (k + rounds)) sims = []) \<longrightarrow>
      (\<exists>u' m2. run_loop env sims rec coords k unknown m1 = Some (Inr (u', k + rounds, m2)) \<and>
          failures_counter m2 = failures_counter m1 + int (failing_rounds env sims rec coords k (k + rounds)) \<and>
          corruptions_counter m2 = corruptions_counter m1 + int (rejecting_rounds env sims k (k + rounds)) \<and>
          (\<forall>j. k \<le> j \<and> j < k + rounds \<longrightarrow>
             (\<exists>pre post. events m2 =
                pre @ download_events (env j) (batchExtract (env j) sims) @ post))))"
proof -
  have c1: "waitForJobs states jobs_ids m = Some (b, m') \<longrightarrow>
      (\<exists>n. first_terminal states jobs_ids n \<and> b = (failed (states n) = []))"
    using waitForJobs_Some[of states jobs_ids m b m'] by blast
  have c2: "waitForJobs states jobs_ids m = None \<longleftrightarrow> (\<forall>n. \<not> all_terminal (states n) jobs_ids)"
    by (rule waitForJobs_None)
  have c3: "first_terminal states jobs_ids n \<longrightarrow>
      (\<exists>m'. waitForJobs states jobs_ids m = Some (failed (states n) = [], m'))"
    using waitForJobs_first_terminal[of states jobs_ids n m] by blast
  have c4: "round_fails env sims rec coords j \<longrightarrow>
      round_completes env sims rec coords j \<and>
      (\<exists>s. script_to_launch
              [k. (k, s) \<leftarrow> enumerate 0 (subgroups_skeletons rec @ wholegroup_skeletons rec), s = name coords]
              (generate (env j) (batchExtract (env j) sims)) coords = Inr s \<and>
           (\<forall>m. \<exists>m'. waitForJobs (job_states (env j)) (execute (env j) (finalpath s)) m = Some (False, m')))"
    using round_fails_wait[of env sims rec coords j] by blast
  have c5: "round_completes env sims rec coords j \<and> \<not> round_fails env sims rec coords j \<longrightarrow>
      (\<exists>s. script_to_launch
              [k. (k, s) \<leftarrow> enumerate 0 (subgroups_skeletons rec @ wholegroup_skeletons rec), s = name coords]
              (generate (env j) (batchExtract (env j) sims)) coords = Inr s \<and>
           (\<forall>m. \<exists>m'. waitForJobs (job_states (env j)) (execute (env j) (finalpath s)) m = Some (True, m')))"
    using round_succeeds_wait[of env sims rec coords j] by blast
  have c6: "(\<forall>j. k \<le> j \<and> j < k + rounds \<longrightarrow>
        round_completes env sims rec coords j \<and>
        loop_condition (with_counts m1 (failing_rounds env sims rec coords k j) (rejecting_rounds env sims k j))) \<and>
    (\<not> loop_condition (with_counts m1 (failing_rounds env sims rec coords k (k + rounds))
                                       (rejecting_rounds env sims k (k + rounds))) \<or>
     batchExtract (env (k + rounds)) sims = []) \<longrightarrow>
      (\<exists>u' m2. run_loop env sims rec coords k unknown m1 = Some (Inr (u', k + rounds, m2)) \<and>
          failures_counter m2 = failures_counter m1 + int (failing_rounds env sims rec coords k (k + rounds)) \<and>
          corruptions_counter m2 = corruptions_counter m1 + int (rejecting_rounds env sims k (k + rounds)) \<and>
          (\<forall>j. k \<le> j \<and> j < k + rounds \<longrightarrow>
             (\<exists>pre post. events m2 =
                pre @ download_events (env j) (batchExtract (env j) sims) @ post)))"
  proof (intro impI)
    assume a: "(\<forall>j. k \<le> j \<and> j < k + rounds \<longrightarrow>
        round_completes env sims rec coords j \<and>
        loop_condition (with_counts m1 (failing_rounds env sims rec coords k j) (rejecting_rounds env sims k j))) \<and>
      (\<not> loop_condition (with_counts m1 (failing_rounds env sims rec coords k (k + rounds))
                                       (rejecting_rounds env sims k (k + rounds))) \<or>
       batchExtract (env (k + rounds)) sims = [])"
    from run_loop_total[OF a[THEN conjunct1] a[THEN conjunct2], of unknown]
    show "\<exists>u' m2. run_loop env sims rec coords k unknown m1 = Some (Inr (u', k + rounds, m2)) \<and>
          failures_counter m2 = failures_counter m1 + int (failing_rounds env sims rec coords k (k + rounds)) \<and>
          corruptions_counter m2 = corruptions_counter m1 + int (rejecting_rounds env sims k (k + rounds)) \<and>
          (\<forall>j. k \<le> j \<and> j < k + rounds \<longrightarrow>
             (\<exists>pre post. events m2 =
                pre @ download_events (env j) (batchExtract (env j) sims) @ post))"
      by blast
  qed
  show ?thesis by (intro conjI) (fact c1 c2 c3 c4 c5 c6)+
qed

theorem waitForJobs_until_all_terminal_witness:
  "(\<exists>m'. waitForJobs (job_states (demo_round True 0)) [''j1'', ''j2''] (demo_maker 0) = Some (False, m')) \<and>
   (\<exists>m'. waitForJobs (job_states (demo_round False 0)) [''j1'', ''j2''] (demo_maker 0) = Some (True, m')) \<and>
   waitForJobs (\<lambda>n. \<lparr>waiting = [], running = [''j1''], succeed = [], failed = []\<rparr>) [''j1''] (demo_maker 0) = None \<and>
   failing_rounds (\<lambda>k. demo_round True (if k = 0 then 0 else 3)) [1, 2] demo_recipe demo_coords 0 2 = 2 \<and>
   rejecting_rounds (\<lambda>k. demo_round True (if k = 0 then 0 else 3)) [1, 2] 0 2 = 1 \<and>
   (\<exists>u' m2. run_loop (\<lambda>k. demo_round True (if k = 0 then 0 else 3)) [1, 2] demo_recipe demo_coords 0 None
               (demo_maker 1) = Some (Inr (u', 2, m2)) \<and>
            failures_counter m2 = 2 \<and> corruptions_counter m2 = 1 \<and>
            (\<exists>pre post. events m2 = pre @ download_events (demo_round True 0) [1, 2] @ post) \<and>
            (\<exists>pre post. events m2 = pre @ download_events (demo_round True 3) [1, 2] @ post))"
proof -
  note t = waitForJobs_until_all_terminal
  have ft: "first_terminal (job_states (demo_round fails rejected)) [''j1'', ''j2''] 1" for fails rejected
    by (rule demo_first_terminal)
  have a: "\<exists>m'. waitForJobs (job_states (demo_round True 0)) [''j1'', ''j2''] (demo_maker 0) = Some (False, m')"
    using t[where states = "job_states (demo_round True 0)" and jobs_ids = "[''j1'', ''j2'']"
        and m = "demo_maker 0" and n = 1, THEN conjunct2, THEN conjunct2, THEN conjunct1] ft[of True 0]
    by (simp add: demo_round_def)
  have b: "\<exists>m'. waitForJobs (job_states (demo_round False 0)) [''j1'', ''j2''] (demo_maker 0) = Some (True, m')"
    using t[where states = "job_states (demo_round False 0)" and jobs_ids = "[''j1'', ''j2'']"
        and m = "demo_maker 0" and n = 1, THEN conjunct2, THEN conjunct2, THEN conjunct1] ft[of False 0]
    by (simp add: demo_round_def)
  have c: "waitForJobs (\<lambda>n. \<lparr>waiting = [], running = [''j1''], succeed = [], failed = []\<rparr>) [''j1''] (demo_maker 0) = None"
    using t[where states = "\<lambda>n. \<lparr>waiting = [], running = [''j1''], succeed = [], failed = []\<rparr>"
        and jobs_ids = "[''j1'']" and m = "demo_maker 0", THEN conjunct2, THEN conjunct1]
    by (simp add: all_terminal_def)
  let ?env = "\<lambda>k. demo_round True (if k = 0 then 0 else 3)"
  have F: "failing_rounds ?env [1, 2] demo_recipe demo_coords 0 j = j" for j
    using demo_env_counts(1)[where fl = "\<lambda>k. True" and rej = "\<lambda>k. if k = 0 then 0 else 3", of 0 j]
    by simp
  have C: "rejecting_rounds ?env [1, 2] 0 0 = 0" "rejecting_rounds ?env [1, 2] 0 1 = 0"
    "rejecting_rounds ?env [1, 2] 0 2 = 1"
    using demo_env_counts(2)[where fl = "\<lambda>k. True" and rej = "\<lambda>k. if k = 0 then 0 else 3", of 0]
    by (simp_all add: numeral_2_eq_2)
  have rc: "round_completes ?env [1, 2] demo_recipe demo_coords j" for j
    by (rule demo_env_completes[where fl = "\<lambda>k. True" and rej = "\<lambda>k. if k = 0 then 0 else 3"])
  have h1: "\<forall>j::nat. 0 \<le> j \<and> j < 0 + 2 \<longrightarrow>
        round_completes ?env [1, 2] demo_recipe demo_coords j \<and>
        loop_condition (with_counts (demo_maker 1) (failing_rounds ?env [1, 2] demo_recipe demo_coords 0 j)
                          (rejecting_rounds ?env [1, 2] 0 j))"
  proof (intro allI impI)
    fix j :: nat assume "0 \<le> j \<and> j < 0 + 2"
    then consider "j = 0" | "j = 1" by linarith
    then have "loop_condition (with_counts (demo_maker 1) (failing_rounds ?env [1, 2] demo_recipe demo_coords 0 j)
                          (rejecting_rounds ?env [1, 2] 0 j))"
    proof cases
      case 1
      then show ?thesis unfolding F by (simp add: C loop_condition_def with_counts_def demo_maker_def)
    next
      case 2
      then show ?thesis unfolding F by (simp add: C loop_condition_def with_counts_def demo_maker_def)
    qed
    then show "round_completes ?env [1, 2] demo_recipe demo_coords j \<and>
        loop_condition (with_counts (demo_maker 1) (failing_rounds ?env [1, 2] demo_recipe demo_coords 0 j)
                          (rejecting_rounds ?env [1, 2] 0 j))"
      using rc by blast
  qed
  have h2: "\<not> loop_condition (with_counts (demo_maker 1) (failing_rounds ?env [1, 2] demo_recipe demo_coords 0 (0 + 2))
                                       (rejecting_rounds ?env [1, 2] 0 (0 + 2))) \<or>
     batchExtract (?env (0 + 2)) [1, 2] = []"
    unfolding F by (simp add: C loop_condition_def with_counts_def demo_maker_def)
  from t[where env = ?env and sims = "[1, 2]" and rec = demo_recipe and coords = demo_coords and k = 0
      and rounds = 2 and ?m1.0 = "demo_maker 1" and unknown = None,
      THEN conjunct2, THEN conjunct2, THEN conjunct2, THEN conjunct2, THEN conjunct2, THEN mp,
      OF conjI[OF h1 h2]]
  obtain u' m2 where r: "run_loop ?env [1, 2] demo_recipe demo_coords 0 None (demo_maker 1) =
        Some (Inr (u', 0 + 2, m2))"
    and f: "failures_counter m2 = failures_counter (demo_maker 1) +
          int (failing_rounds ?env [1, 2] demo_recipe demo_coords 0 (0 + 2))"
    and cc: "corruptions_counter m2 = corruptions_counter (demo_maker 1) +
          int (rejecting_rounds ?env [1, 2] 0 (0 + 2))"
    and bl: "\<forall>j::nat. 0 \<le> j \<and> j < 0 + 2 \<longrightarrow>
             (\<exists>pre post. events m2 = pre @ download_events (?env j) (batchExtract (?env j) [1, 2]) @ post)"
    by blast
  have f2: "failures_counter m2 = 2" using f unfolding F by (simp add: demo_maker_def)
  have z: "0 + 2 = (2::nat)" by simp
  have c2: "corruptions_counter m2 = 1" using cc unfolding z C by (simp add: demo_maker_def)
  have b0: "\<exists>pre post. events m2 = pre @ download_events (demo_round True 0) [1, 2] @ post"
    using bl[rule_format, of 0] by (simp add: demo_round_def)
  have b1: "\<exists>pre post. events m2 = pre @ download_events (demo_round True 3) [1, 2] @ post"
    using bl[rule_format, of 1] by (simp add: demo_round_def)
  have r2: "run_loop ?env [1, 2] demo_recipe demo_coords 0 None (demo_maker 1) = Some (Inr (u', 2, m2))"
    using r by simp
  have d: "\<exists>u' m2. run_loop ?env [1, 2] demo_recipe demo_coords 0 None (demo_maker 1) = Some (Inr (u', 2, m2)) \<and>
            failures_counter m2 = 2 \<and> corruptions_counter m2 = 1 \<and>
            (\<exists>pre post. events m2 = pre @ download_events (demo_round True 0) [1, 2] @ post) \<and>
            (\<exists>pre post. events m2 = pre @ download_events (demo_round True 3) [1, 2] @ post)"
    using r2 f2 c2 b0 b1 by blast
  have F2: "failing_rounds ?env [1, 2] demo_recipe demo_coords 0 2 = 2" by (rule F)
  show ?thesis by (intro conjI) (fact a b c F2 C(3) d)+
qed

section \<open>Properties of the settings of a simulation\<close>

subsection \<open>Tags and the substitution pass\<close>

lemma name_and_rest_tag:
  assumes "nm \<noteq> []" "CHR ''}'' \<notin> set nm"
  shows "name_and_rest (nm @ CHR ''}'' # rest) = Some (nm, rest)"
proof -
  have t: "takeWhile (\<lambda>c. c \<noteq> CHR ''}'') (nm @ CHR ''}'' # rest) = nm"
    using assms(2) by (auto simp: takeWhile_append2 takeWhile_tail)
  have "dropWhile (\<lambda>c. c \<noteq> CHR ''}'') (nm @ CHR ''}'' # rest) =
        dropWhile (\<lambda>c. c \<noteq> CHR ''}'') (CHR ''}'' # rest)"
    by (rule dropWhile_append2) (use assms(2) in auto)
  then have d: "dropWhile (\<lambda>c. c \<noteq> CHR ''}'') (nm @ CHR ''}'' # rest) = CHR ''}'' # rest"
    by simp
  show ?thesis using assms(1) by (simp add: name_and_rest_def t d)
qed

lemma match_tag_tag_text:
  assumes "nm \<noteq> []" "CHR ''}'' \<notin> set nm"
  shows "match_tag (tag_text cat nm @ rest) = Some (cat, nm, rest)"
proof (cases cat)
  case Setting
  have "strip_prefix ''{globalsetting:'' (tag_text Setting nm @ rest) = None"
    by (simp add: strip_prefix_def tag_text_def)
  moreover have "strip_prefix ''{setting:'' (tag_text Setting nm @ rest) = Some (nm @ CHR ''}'' # rest)"
    by (simp add: strip_prefix_def tag_text_def)
  ultimately show ?thesis using name_and_rest_tag[OF assms, of rest] Setting
    by (simp add: match_tag_def)
next
  case GlobalSetting
  have "strip_prefix ''{globalsetting:'' (tag_text GlobalSetting nm @ rest) = Some (nm @ CHR ''}'' # rest)"
    by (simp add: strip_prefix_def tag_text_def)
  then show ?thesis using name_and_rest_tag[OF assms, of rest] GlobalSetting
    by (simp add: match_tag_def)
qed

lemma match_tag_no_brace: "c \<noteq> CHR ''{'' \<Longrightarrow> match_tag (c # cs) = None"
  by (simp add: match_tag_def strip_prefix_def)

lemma substitute_literal: "CHR ''{'' \<notin> set lit \<Longrightarrow> substitute dicts (lit @ s) = lit @ substitute dicts s"
proof (induction lit)
  case Nil
  show ?case by simp
next
  case (Cons a lit)
  then have "a \<noteq> CHR ''{''" by auto
  then have "match_tag (a # lit @ s) = None" by (rule match_tag_no_brace)
  then show ?case using Cons by simp
qed

lemma substitute_no_brace: "CHR ''{'' \<notin> set lit \<Longrightarrow> substitute dicts lit = lit"
  using substitute_literal[of lit dicts "[]"] by simp

lemma tag_text_Cons: "tag_text cat nm @ rest = CHR ''{'' # (category_name cat @ CHR '':'' # nm @ CHR ''}'' # rest)"
  by (simp add: tag_text_def)

lemma substitute_tag:
  assumes "nm \<noteq> []" "CHR ''}'' \<notin> set nm"
  shows "substitute dicts (tag_text cat nm @ rest) =
           (case dicts cat nm of Some v \<Rightarrow> py_str v | None \<Rightarrow> tag_text cat nm) @ substitute dicts rest"
proof -
  have "match_tag (CHR ''{'' # (category_name cat @ CHR '':'' # nm @ CHR ''}'' # rest)) = Some (cat, nm, rest)"
    using match_tag_tag_text[OF assms, of cat rest] by (simp only: tag_text_Cons)
  then show ?thesis by (simp only: tag_text_Cons substitute.simps option.case prod.case)
qed

lemma fullmatch_tag_text:
  assumes "nm \<noteq> []" "CHR ''}'' \<notin> set nm"
  shows "fullmatch (tag_text cat nm) = Some (cat, nm)"
  using match_tag_tag_text[OF assms, of cat "[]"] by (simp add: fullmatch_def)

lemma fullmatch_with_rest:
  assumes "nm \<noteq> []" "CHR ''}'' \<notin> set nm" "rest \<noteq> []"
  shows "fullmatch (tag_text cat nm @ rest) = None"
  using match_tag_tag_text[OF assms(1,2), of cat rest] assms(3) by (simp add: fullmatch_def)

lemma fullmatch_no_brace: "c \<noteq> CHR ''{'' \<Longrightarrow> fullmatch (c # cs) = None"
  by (simp add: fullmatch_def match_tag_no_brace)

text \<open>Conversely, a string with a full match is the text of the tag.\<close>

lemma name_and_rest_Some:
  "name_and_rest body = Some (nm, rest) \<Longrightarrow> body = nm @ CHR ''}'' # rest \<and> nm \<noteq> [] \<and> CHR ''}'' \<notin> set nm"
proof -
  assume a: "name_and_rest body = Some (nm, rest)"
  have td: "takeWhile (\<lambda>c. c \<noteq> CHR ''}'') body @ dropWhile (\<lambda>c. c \<noteq> CHR ''}'') body = body"
    by (rule takeWhile_dropWhile_id)
  obtain b where d: "dropWhile (\<lambda>c. c \<noteq> CHR ''}'') body = b # rest"
    and nm: "nm = takeWhile (\<lambda>c. c \<noteq> CHR ''}'') body" "nm \<noteq> []"
    using a by (auto simp: name_and_rest_def split: list.splits if_splits)
  have "b = CHR ''}''" using hd_dropWhile[of "\<lambda>c. c \<noteq> CHR ''}''" body] d by auto
  moreover have "CHR ''}'' \<notin> set nm" unfolding nm(1) by (auto dest: set_takeWhileD)
  ultimately show ?thesis using td d nm by auto
qed

lemma strip_prefix_Some: "strip_prefix p s = Some body \<Longrightarrow> s = p @ body"
  by (auto simp: strip_prefix_def split: if_splits) (metis append_take_drop_id)

lemma match_tag_Some:
  "match_tag s = Some (cat, nm, rest) \<Longrightarrow> s = tag_text cat nm @ rest \<and> nm \<noteq> [] \<and> CHR ''}'' \<notin> set nm"
  by (auto simp: match_tag_def tag_text_def split: option.splits
        dest!: name_and_rest_Some strip_prefix_Some)

lemma fullmatch_Some:
  "fullmatch s = Some (cat, nm) \<Longrightarrow> s = tag_text cat nm \<and> nm \<noteq> [] \<and> CHR ''}'' \<notin> set nm"
  by (auto simp: fullmatch_def split: option.splits if_splits dest!: match_tag_Some)


subsection \<open>A simulation whose settings are generated\<close>

lemma py_not_Some: "py_not (Some xs) \<longleftrightarrow> xs = []"
  by (simp add: py_not_def)

lemma reduce_dicts_reduced: "sets \<noteq> [] \<Longrightarrow> reduce_dicts (map settings_dict sets) = Inr (reduced sets)"
  by (cases sets) (simp_all add: reduced_def)

lemma settings_property_generated:
  "raw_settings sim = Some sets \<Longrightarrow> sets \<noteq> [] \<Longrightarrow>
     settings_property d sim = (if d < 1 then Inl RecursionError else Inr (Some sets, sim))"
  by (cases d) (simp_all add: py_not_Some)

lemma settings_view_generated:
  "raw_settings sim = Some sets \<Longrightarrow> sets \<noteq> [] \<Longrightarrow>
     settings_view d sim = (if d < 2 then Inl RecursionError else Inr (map settings_dict sets, sim))"
  by (cases d) (simp_all add: settings_property_generated)

lemma reduced_settings_generated:
  "raw_settings sim = Some sets \<Longrightarrow> sets \<noteq> [] \<Longrightarrow>
     reduced_settings d sim = (if d < 3 then Inl RecursionError else Inr (reduced sets, sim))"
  by (cases d) (auto simp: settings_view_generated reduce_dicts_reduced)

lemma globalsettings_property_generated:
  "raw_globalsettings sim = Some gs \<Longrightarrow> gs \<noteq> [] \<Longrightarrow>
     globalsettings_property d sim = (if d < 1 then Inl RecursionError else Inr (Some gs, sim))"
  by (cases d) (simp_all add: py_not_Some)

lemma reduced_globalsettings_generated:
  "raw_globalsettings sim = Some gs \<Longrightarrow> gs \<noteq> [] \<Longrightarrow>
     reduced_globalsettings d sim =
       (if d < 2 then Inl RecursionError else Inr (globalsettings_dict gs, sim))"
  by (cases d) (simp_all add: globalsettings_property_generated)

text \<open>
  \<open>parseString\<close> on a string, for a simulation whose settings are generated: the two
  properties only read, and what is left is the body of the method.
\<close>

lemma parseString_generated:
  assumes "raw_settings sim = Some sets" "sets \<noteq> []"
    and "raw_globalsettings sim = Some gs" "gs \<noteq> []"
  shows "parseString (Suc d) sim (VStr s) =
     (if d < 3 then Inl RecursionError
      else case fullmatch s of
             Some (cat, nm) \<Rightarrow>
               (case dicts_of sets gs cat nm of Some v \<Rightarrow> Inr (v, sim) | None \<Rightarrow> Inr (VStr s, sim))
           | None \<Rightarrow>
               if substitute (dicts_of sets gs) s \<notin> set (parser_recursion_stack sim @ [s])
               then parseString d (sim\<lparr>parser_recursion_stack := parser_recursion_stack sim @ [s]\<rparr>)
                      (VStr (substitute (dicts_of sets gs) s))
               else Inr (VStr (substitute (dicts_of sets gs) s), sim\<lparr>parser_recursion_stack := []\<rparr>))"
proof (cases "d < 3")
  case True
  then show ?thesis using assms by (simp add: reduced_settings_generated)
next
  case False
  have d: "dicts_of sets gs = (\<lambda>cat. case cat of Setting \<Rightarrow> reduced sets | GlobalSetting \<Rightarrow> globalsettings_dict gs)"
    by (rule ext) (simp add: dicts_of_def)
  have rs: "reduced_settings d sim = Inr (reduced sets, sim)"
    using False assms(1,2) by (simp add: reduced_settings_generated)
  have rg: "reduced_globalsettings d sim = Inr (globalsettings_dict gs, sim)"
    using False assms(3,4) by (simp add: reduced_globalsettings_generated)
  show ?thesis using False
    by (simp add: rs rg Let_def d split: option.splits category.splits)
qed

lemma parseString_not_string:
  "(\<forall>s. v \<noteq> VStr s) \<Longrightarrow> parseString (Suc d) sim v = Inr (v, sim)"
  by (cases v) simp_all

lemma length_concat_replicate: "length (concat (replicate k xs)) = k * length xs"
  by (induction k) simp_all

lemma set_concat_replicate: "set (concat (replicate k xs)) \<subseteq> set xs"
  by (induction k) auto

text \<open>
  A value that refers to its own name and adds text: each pass of \<open>parseString\<close> makes the
  string longer, no string comes back, and the recursion ends only at the bound.
\<close>

lemma parseString_self_reference:
  assumes "raw_settings sim = Some sets" "sets \<noteq> []"
    and "raw_globalsettings sim = Some gs" "gs \<noteq> []"
    and "dicts_of sets gs cat nm = Some (VStr (tag_text cat nm @ suffix))"
    and "nm \<noteq> []" "CHR ''}'' \<notin> set nm" "suffix \<noteq> []" "CHR ''{'' \<notin> set suffix"
  shows "1 \<le> k \<Longrightarrow> \<forall>t \<in> set stack. length t < length (tag_text cat nm @ concat (replicate k suffix)) \<Longrightarrow>
         parseString d (sim\<lparr>parser_recursion_stack := stack\<rparr>)
           (VStr (tag_text cat nm @ concat (replicate k suffix))) = Inl RecursionError"
proof (induction d arbitrary: k stack)
  case 0
  show ?case by simp
next
  case (Suc d)
  let ?s = "tag_text cat nm @ concat (replicate k suffix)"
  let ?s' = "tag_text cat nm @ concat (replicate (Suc k) suffix)"
  let ?sim = "sim\<lparr>parser_recursion_stack := stack\<rparr>"
  have raw: "raw_settings ?sim = Some sets" "raw_globalsettings ?sim = Some gs" using assms(1,3) by simp_all
  have rest: "concat (replicate k suffix) \<noteq> []"
    using Suc.prems(1) assms(8) by (cases k) simp_all
  have fm: "fullmatch ?s = None" using fullmatch_with_rest[OF assms(6,7) rest] .
  have nb: "CHR ''{'' \<notin> set (concat (replicate k suffix))"
    using set_concat_replicate[of k suffix] assms(9) by blast
  have sub: "substitute (dicts_of sets gs) ?s = ?s'"
    using substitute_tag[OF assms(6,7), of "dicts_of sets gs" cat "concat (replicate k suffix)"]
      substitute_no_brace[OF nb, of "dicts_of sets gs"] assms(5)
    by simp
  have longer: "length ?s < length ?s'" using assms(8) by simp
  have fresh: "?s' \<notin> set (stack @ [?s])"
  proof
    assume "?s' \<in> set (stack @ [?s])"
    then have "length ?s' \<le> length ?s" using Suc.prems(2) by (auto simp del: replicate.simps concat.simps)
    then show False using longer by simp
  qed
  have shorter: "\<forall>t \<in> set (stack @ [?s]). length t < length ?s'"
    using Suc.prems(2) longer by auto
  have k': "1 \<le> Suc k" by simp
  show ?case
  proof (cases "d < 3")
    case True
    then show ?thesis using parseString_generated[OF raw(1) assms(2) raw(2) assms(4), of d ?s] by simp
  next
    case False
    have "parseString (Suc d) ?sim (VStr ?s) =
          parseString d (?sim\<lparr>parser_recursion_stack := parser_recursion_stack ?sim @ [?s]\<rparr>) (VStr ?s')"
      using parseString_generated[OF raw(1) assms(2) raw(2) assms(4), of d ?s] False fm sub fresh
      by (simp del: replicate.simps concat.simps)
    also have "\<dots> = parseString d (sim\<lparr>parser_recursion_stack := stack @ [?s]\<rparr>) (VStr ?s')" by simp
    also have "\<dots> = Inl RecursionError" using Suc.IH[OF k' shorter] .
    finally show ?thesis .
  qed
qed

lemma for_each_unchanged: "(\<forall>x \<in> set xs. body x s = Inr s) \<Longrightarrow> for_each body xs s = Inr s"
  by (induction xs) simp_all

lemma for_each_fails:
  "(\<forall>x \<in> set xs. body x s = Inr s \<or> body x s = Inl e) \<Longrightarrow> (\<exists>x \<in> set xs. body x s = Inl e) \<Longrightarrow>
     for_each body xs s = Inl e"
proof (induction xs)
  case Nil
  then show ?case by simp
next
  case (Cons a xs)
  show ?case
  proof (cases "body a s")
    case (Inl e')
    then show ?thesis using Cons.prems(1) by auto
  next
    case (Inr s')
    then have s': "s' = s" using Cons.prems(1) by auto
    then have "\<exists>x \<in> set xs. body x s = Inl e" using Cons.prems(2) Inr by auto
    then show ?thesis using Cons.IH Cons.prems(1) Inr s' by simp
  qed
qed

subsection \<open>No instance of any set of settings\<close>

lemma no_instances_recursion:
  "no_instances sim \<Longrightarrow>
     settings_property d sim = Inl RecursionError \<and> generateSettings d sim = Inl RecursionError \<and>
     parseSettings d sim = Inl RecursionError"
proof (induction d arbitrary: sim)
  case 0
  show ?case by simp
next
  case (Suc d)
  have ni: "no_instances (sim\<lparr>raw_settings := Some (generated_sets (folder sim) (user sim))\<rparr>)"
    using Suc.prems by (simp add: no_instances_def py_not_def)
  have a: "settings_property (Suc d) sim = Inl RecursionError"
    using Suc.IH[OF Suc.prems] Suc.prems by (simp add: no_instances_def)
  have b: "generateSettings (Suc d) sim = Inl RecursionError"
    using Suc.IH[OF ni] by simp
  have c: "parseSettings (Suc d) sim = Inl RecursionError"
    using Suc.IH[OF Suc.prems] by simp
  show ?case using a b c by simp
qed

lemma no_instances_reduced_settings:
  assumes "no_instances sim"
  shows "settings_view d sim = Inl RecursionError" "reduced_settings d sim = Inl RecursionError"
proof -
  show v: "settings_view d sim = Inl RecursionError" for d
    using no_instances_recursion[OF assms] by (cases d) simp_all
  show "reduced_settings d sim = Inl RecursionError"
    using v by (cases d) simp_all
qed

lemma no_instances_parseString:
  "no_instances sim \<Longrightarrow> parseString d sim (VStr s) = Inl RecursionError"
  using no_instances_reduced_settings(2)[of sim] by (cases d) simp_all

lemma set_global_value_same: "i < length gs \<Longrightarrow> set_global_value i (g_value (gs ! i)) gs = gs"
  by (simp add: set_global_value_def)

lemma no_instances_generateGlobalSettings:
  assumes "no_instances sim"
    and "\<exists>g \<in> set (generated_globals (folder sim) (user sim)). \<exists>s. g_value g = VStr s"
  shows "generateGlobalSettings d sim = Inl RecursionError"
proof (cases d)
  case 0
  then show ?thesis by simp
next
  case d: (Suc d1)
  let ?gs = "generated_globals (folder sim) (user sim)"
  let ?sim = "sim\<lparr>raw_globalsettings := Some ?gs\<rparr>"
  have ni: "no_instances ?sim" using assms(1) by (simp add: no_instances_def)
  have ne: "?gs \<noteq> []" using assms(2) by auto
  have "parseGlobalSettings d1 ?sim = Inl RecursionError"
  proof (cases d1)
    case 0
    then show ?thesis by simp
  next
    case d1: (Suc d2)
    show ?thesis
    proof (cases d2)
      case 0
      then show ?thesis using d1 by simp
    next
      case d2: (Suc d3)
      let ?body = "\<lambda>i sim.
               case raw_globalsettings sim of
                 None \<Rightarrow> Inl TypeError
               | Some gs \<Rightarrow>
                   if i < length gs
                   then (case parseString d2 sim (g_value (gs ! i)) of
                           Inl e \<Rightarrow> Inl e
                         | Inr (v, sim1) \<Rightarrow>
                             Inr (sim1\<lparr>raw_globalsettings :=
                                         map_option (set_global_value i v) (raw_globalsettings sim1)\<rparr>))
                   else Inl IndexError"
      have each: "?body i ?sim = Inr ?sim \<or> ?body i ?sim = Inl RecursionError" if "i < length ?gs" for i
      proof (cases "\<exists>s. g_value (?gs ! i) = VStr s")
        case True
        then show ?thesis using that no_instances_parseString[OF ni, of d2] by auto
      next
        case False
        then have "parseString d2 ?sim (g_value (?gs ! i)) = Inr (g_value (?gs ! i), ?sim)"
          unfolding d2 by (intro parseString_not_string) simp
        then show ?thesis using that by (simp add: set_global_value_same)
      qed
      obtain i where i: "i < length ?gs" "\<exists>s. g_value (?gs ! i) = VStr s"
        using assms(2) by (auto simp: in_set_conv_nth)
      have bad: "?body i ?sim = Inl RecursionError"
        using i no_instances_parseString[OF ni, of d2] by auto
      have gp: "globalsettings_property d2 ?sim = Inr (Some ?gs, ?sim)"
        using globalsettings_property_generated[of ?sim ?gs d2] ne by (simp add: d2)
      have fe: "for_each ?body [0..<length ?gs] ?sim = Inl RecursionError"
      proof (rule for_each_fails)
        show "\<forall>x \<in> set [0..<length ?gs]. ?body x ?sim = Inr ?sim \<or> ?body x ?sim = Inl RecursionError"
          using each by simp
        show "\<exists>x \<in> set [0..<length ?gs]. ?body x ?sim = Inl RecursionError"
          using i(1) bad by (intro bexI[of _ i]) simp_all
      qed
      show ?thesis unfolding d1 by (simp add: gp fe)
    qed
  qed
  then show ?thesis unfolding d by simp
qed


subsection \<open>Global settings none of which is a string\<close>

lemma globals_without_strings:
  assumes "py_not (raw_globalsettings sim)"
    and "generated_globals (folder sim) (user sim) = gs" "gs \<noteq> []"
    and "\<forall>g \<in> set gs. \<forall>s. g_value g \<noteq> VStr s"
  shows "parseGlobalSettings d (sim\<lparr>raw_globalsettings := Some gs\<rparr>) =
           (if d < 2 then Inl RecursionError else Inr (sim\<lparr>raw_globalsettings := Some gs\<rparr>))"
    and "generateGlobalSettings d sim =
           (if d < 3 then Inl RecursionError else Inr (sim\<lparr>raw_globalsettings := Some gs\<rparr>))"
    and "globalsettings_property d sim =
           (if d < 4 then Inl RecursionError else Inr (Some gs, sim\<lparr>raw_globalsettings := Some gs\<rparr>))"
    and "reduced_globalsettings d sim =
           (if d < 5 then Inl RecursionError
            else Inr (globalsettings_dict gs, sim\<lparr>raw_globalsettings := Some gs\<rparr>))"
proof -
  let ?sim = "sim\<lparr>raw_globalsettings := Some gs\<rparr>"
  show p: "parseGlobalSettings d ?sim = (if d < 2 then Inl RecursionError else Inr ?sim)" for d
  proof (cases d)
    case 0
    then show ?thesis by simp
  next
    case d: (Suc d1)
    show ?thesis
    proof (cases d1)
      case 0
      then show ?thesis using d by simp
    next
      case d1: (Suc d2)
      let ?body = "\<lambda>i sim.
               case raw_globalsettings sim of
                 None \<Rightarrow> Inl TypeError
               | Some gs \<Rightarrow>
                   if i < length gs
                   then (case parseString d1 sim (g_value (gs ! i)) of
                           Inl e \<Rightarrow> Inl e
                         | Inr (v, sim1) \<Rightarrow>
                             Inr (sim1\<lparr>raw_globalsettings :=
                                         map_option (set_global_value i v) (raw_globalsettings sim1)\<rparr>))
                   else Inl IndexError"
      have each: "?body i ?sim = Inr ?sim" if "i < length gs" for i
      proof -
        have "\<forall>s. g_value (gs ! i) \<noteq> VStr s" using assms(4) that by simp
        then have "parseString d1 ?sim (g_value (gs ! i)) = Inr (g_value (gs ! i), ?sim)"
          unfolding d1 by (rule parseString_not_string)
        then show ?thesis using that by (simp add: set_global_value_same)
      qed
      have fe: "for_each ?body [0..<length gs] ?sim = Inr ?sim"
        by (rule for_each_unchanged) (use each in simp)
      have gp: "globalsettings_property d1 ?sim = Inr (Some gs, ?sim)"
        using globalsettings_property_generated[of ?sim gs d1] assms(3) by (simp add: d1)
      have pos: "\<not> Suc d1 < 2" by (simp add: d1)
      show ?thesis unfolding d using pos by (simp add: gp fe)
    qed
  qed
  show g: "generateGlobalSettings d sim = (if d < 3 then Inl RecursionError else Inr ?sim)" for d
    using p assms(2) by (cases d) auto
  show gp: "globalsettings_property d sim =
           (if d < 4 then Inl RecursionError else Inr (Some gs, ?sim))" for d
    using g assms(1) by (cases d) auto
  show "reduced_globalsettings d sim =
           (if d < 5 then Inl RecursionError else Inr (globalsettings_dict gs, ?sim))"
    using gp by (cases d) auto
qed

subsection \<open>A setting that refers to itself\<close>

lemma self_ref_generated:
  "generated_sets (folder self_ref_sim) (user self_ref_sim) = self_ref_sets"
  "generated_globals (folder self_ref_sim) (user self_ref_sim) = self_ref_globals"
  by (simp_all add: self_ref_sim_def self_ref_folder_def self_ref_sets_def self_ref_globals_def
        generated_sets_def generated_globals_def append_set_def values_sets_def default_settings_def)

lemma self_ref_lookup:
  "dicts_of self_ref_sets gs Setting ''path'' = Some (VStr (tag_text Setting ''path'' @ ''/sub''))"
  by (simp add: dicts_of_def reduced_def self_ref_sets_def settings_dict_def tag_text_def)

lemma self_ref_grows:
  assumes "raw_settings sim = Some self_ref_sets" "raw_globalsettings sim = Some self_ref_globals"
    and "1 \<le> k" "\<forall>t \<in> set stack. length t < length (tag_text Setting ''path'' @ concat (replicate k ''/sub''))"
  shows "parseString d (sim\<lparr>parser_recursion_stack := stack\<rparr>)
           (VStr (tag_text Setting ''path'' @ concat (replicate k ''/sub''))) = Inl RecursionError"
proof (rule parseString_self_reference[OF assms(1) _ assms(2) _ self_ref_lookup _ _ _ _ assms(3,4)])
  show "self_ref_sets \<noteq> []" by (simp add: self_ref_sets_def)
  show "self_ref_globals \<noteq> []" by (simp add: self_ref_globals_def)
qed simp_all

lemma self_ref_first_call:
  assumes "raw_settings sim = Some self_ref_sets" "py_not (raw_globalsettings sim)"
    and "folder sim = self_ref_folder" "user sim = \<lparr>user_globals = Map.empty, user_sets = []\<rparr>"
    and "parser_recursion_stack sim = []"
  shows "parseString d sim (VStr ''{setting:path}/sub'') = Inl RecursionError"
proof (cases d)
  case 0
  then show ?thesis by simp
next
  case d: (Suc d1)
  let ?simg = "sim\<lparr>raw_globalsettings := Some self_ref_globals\<rparr>"
  let ?s1 = "tag_text Setting ''path'' @ concat (replicate 1 ''/sub'')"
  let ?s2 = "tag_text Setting ''path'' @ concat (replicate 2 ''/sub'')"
  have s1: "''{setting:path}/sub'' = ?s1" by (simp add: tag_text_def)
  have gg: "generated_globals (folder sim) (user sim) = self_ref_globals"
    using self_ref_generated(2) assms(3,4) by (simp add: self_ref_sim_def)
  have ns: "\<forall>g \<in> set self_ref_globals. \<forall>s. g_value g \<noteq> VStr s" by (simp add: self_ref_globals_def)
  have ne: "self_ref_sets \<noteq> []" "self_ref_globals \<noteq> []"
    by (simp_all add: self_ref_sets_def self_ref_globals_def)
  have rs: "reduced_settings d1 sim = (if d1 < 3 then Inl RecursionError else Inr (reduced self_ref_sets, sim))"
    using reduced_settings_generated[OF assms(1) ne(1)] .
  have rg: "reduced_globalsettings d1 sim =
      (if d1 < 5 then Inl RecursionError else Inr (globalsettings_dict self_ref_globals, ?simg))"
    using globals_without_strings(4)[OF assms(2) gg ne(2) ns] .
  show ?thesis
  proof (cases "d1 < 5")
    case True
    then show ?thesis unfolding d using rs rg by simp
  next
    case False
    have dd: "(\<lambda>cat. case cat of Setting \<Rightarrow> reduced self_ref_sets
                         | GlobalSetting \<Rightarrow> globalsettings_dict self_ref_globals) =
              dicts_of self_ref_sets self_ref_globals"
      by (rule ext) (simp add: dicts_of_def)
    have fm: "fullmatch ?s1 = None" by (rule fullmatch_with_rest) simp_all
    have nb: "CHR ''{'' \<notin> set ''/sub''" by simp
    have "substitute (dicts_of self_ref_sets self_ref_globals) (tag_text Setting ''path'' @ ''/sub'') =
          (case dicts_of self_ref_sets self_ref_globals Setting ''path'' of
             Some v \<Rightarrow> py_str v | None \<Rightarrow> tag_text Setting ''path'') @
          substitute (dicts_of self_ref_sets self_ref_globals) ''/sub''"
      by (rule substitute_tag) simp_all
    also have "\<dots> = (tag_text Setting ''path'' @ ''/sub'') @ ''/sub''"
      by (simp only: self_ref_lookup option.case py_str.simps substitute_no_brace[OF nb])
    finally have sub: "substitute (dicts_of self_ref_sets self_ref_globals) ?s1 = ?s2"
      by (simp add: numeral_2_eq_2 del: substitute.simps)
    have neq: "?s2 \<noteq> ?s1" by (simp add: numeral_2_eq_2)
    have "parseString (Suc d1) sim (VStr ?s1) =
          parseString d1 (?simg\<lparr>parser_recursion_stack := [?s1]\<rparr>) (VStr ?s2)"
      using False rs rg fm neq assms(5)
      by (simp add: dd sub Let_def del: replicate.simps concat.simps One_nat_def replicate_Suc)
    also have "\<dots> = Inl RecursionError"
      by (rule self_ref_grows) (use assms(1) in \<open>simp_all add: tag_text_def numeral_2_eq_2\<close>)
    finally show ?thesis unfolding d s1 .
  qed
qed

lemma self_ref_settings_property: "settings_property d self_ref_sim = Inl RecursionError"
proof (cases d)
  case 0
  then show ?thesis by simp
next
  case d: (Suc d1)
  let ?sim0 = "self_ref_sim\<lparr>raw_settings := Some self_ref_sets\<rparr>"
  have first: "parseString n ?sim0 (VStr ''{setting:path}/sub'') = Inl RecursionError" for n
    by (rule self_ref_first_call) (simp_all add: self_ref_sim_def py_not_def)
  have ps: "parseSettings n ?sim0 = Inl RecursionError" for n
  proof (cases n)
    case 0
    then show ?thesis by simp
  next
    case n: (Suc n1)
    have sp: "settings_property n1 ?sim0 =
        (if n1 < 1 then Inl RecursionError else Inr (Some self_ref_sets, ?sim0))"
      by (rule settings_property_generated) (simp_all add: self_ref_sets_def)
    have pos: "positions self_ref_sets = [(0, 0)]" by (simp add: positions_def self_ref_sets_def)
    have v: "s_value (self_ref_sets ! 0 ! 0) = VStr ''{setting:path}/sub''"
      by (simp add: self_ref_sets_def)
    have l: "0 < length self_ref_sets \<and> 0 < length (self_ref_sets ! 0)" by (simp add: self_ref_sets_def)
    show ?thesis unfolding n using sp pos v l first[of n1] by simp
  qed
  have "generateSettings n self_ref_sim = Inl RecursionError" for n
    using ps self_ref_generated(1) by (cases n) simp_all
  then show ?thesis unfolding d by (simp add: self_ref_sim_def py_not_def)
qed

text \<open>
  Claim C2 fails on the code: with the setting \<open>path\<close> declared as \<open>{setting:path}/sub\<close>,
  whatever the bound on the depth of calls, the settings of the simulation cannot be
  generated and no call of \<open>parseString\<close> on a string returns: each ends in
  \<open>RecursionError\<close>. The same holds of \<open>parseString\<close> on the value itself once both lists
  of settings are in place: each pass adds \<open>/sub\<close>, so no string of the chain comes back.
\<close>

theorem parseString_growing_value_never_returns:
  "(\<forall>d. settings_property d self_ref_sim = Inl RecursionError) \<and>
   (\<forall>d s. parseString d self_ref_sim (VStr s) = Inl RecursionError) \<and>
   (\<forall>d. parseString d
          (self_ref_sim\<lparr>raw_settings := Some self_ref_sets, raw_globalsettings := Some self_ref_globals\<rparr>)
          (VStr ''{setting:path}/sub'') = Inl RecursionError)"
proof (intro conjI allI)
  fix d
  show "settings_property d self_ref_sim = Inl RecursionError" by (rule self_ref_settings_property)
next
  fix d s
  have v: "settings_view n self_ref_sim = Inl RecursionError" for n
    using self_ref_settings_property by (cases n) simp_all
  have "reduced_settings n self_ref_sim = Inl RecursionError" for n
    using v by (cases n) simp_all
  then show "parseString d self_ref_sim (VStr s) = Inl RecursionError" by (cases d) simp_all
next
  fix d
  let ?sim = "self_ref_sim\<lparr>raw_settings := Some self_ref_sets, raw_globalsettings := Some self_ref_globals\<rparr>"
  have "parseString d (?sim\<lparr>parser_recursion_stack := []\<rparr>)
      (VStr (tag_text Setting ''path'' @ concat (replicate 1 ''/sub''))) = Inl RecursionError"
    by (rule self_ref_grows) simp_all
  then show "parseString d ?sim (VStr ''{setting:path}/sub'') = Inl RecursionError"
    by (simp add: tag_text_def self_ref_sim_def)
qed


subsection \<open>The instances of the sets of settings\<close>

lemma fold_set_to_add:
  "fold (\<lambda>values_set raw. raw @ [set_to_add defaults values_set]) vss raw =
     raw @ map (set_to_add defaults) vss"
  by (induction vss arbitrary: raw) simp_all

lemma append_set_expansion:
  "append_set default_pattern u decl raw = raw @ expansion default_pattern u decl"
  by (cases "values_sets u decl") (simp_all add: append_set_def expansion_def fold_set_to_add)

lemma fold_append_set:
  "fold (append_set default_pattern u) decls raw =
     raw @ concat (map (expansion default_pattern u) decls)"
  by (induction decls arbitrary: raw) (simp_all add: append_set_expansion)

lemma generated_sets_expansion:
  "generated_sets f u = concat (map (expansion (setting_pattern f) u) (settings f))"
  by (simp add: generated_sets_def fold_append_set)

lemma set_to_add_nth:
  "j < length defaults \<Longrightarrow>
     set_to_add defaults vs ! j =
       (defaults ! j)\<lparr>s_value := (case vs (s_name (defaults ! j)) of
                                     Some v \<Rightarrow> v | None \<Rightarrow> s_value (defaults ! j))\<rparr>"
  by (simp add: set_to_add_def split: option.splits)

lemma set_to_add_restrict:
  "set_to_add defaults (vs |` set (map s_name defaults)) = set_to_add defaults vs"
  by (simp add: set_to_add_def restrict_map_def)

lemma set_to_add_empty: "set_to_add defaults Map.empty = defaults"
  by (simp add: set_to_add_def)

lemma generated_sets_Nil:
  "generated_sets f u = [] \<longleftrightarrow>
     (\<forall>decl \<in> set (settings f). values_sets u decl = [] \<and> \<not> required decl)"
proof -
  have "expansion p u decl = [] \<longleftrightarrow> values_sets u decl = [] \<and> \<not> required decl" for p decl
    by (cases "values_sets u decl") (simp_all add: expansion_def)
  then show ?thesis by (simp add: generated_sets_expansion)
qed

lemma values_sets_Nil:
  "values_sets u decl = [] \<longleftrightarrow> (\<forall>s \<in> set (user_sets u). vs_set s \<noteq> set_name decl)"
  by (auto simp: values_sets_def filter_empty_conv)

text \<open>
  Values that are not strings are left as they are by \<open>parseSettings\<close>: \<open>generateSettings\<close>
  then returns with the instances of the loop.
\<close>

lemma set_value_same:
  "i < length sets \<Longrightarrow> j < length (sets ! i) \<Longrightarrow> set_value i j (s_value (sets ! i ! j)) sets = sets"
  by (simp add: set_value_def)

lemma positions_bounds:
  "(i, j) \<in> set (positions sets) \<Longrightarrow> i < length sets \<and> j < length (sets ! i)"
  by (auto simp: positions_def)

lemma settings_without_strings:
  assumes "generated_sets (folder sim) (user sim) = sets" "sets \<noteq> []"
    and "\<forall>st \<in> set sets. \<forall>s \<in> set st. \<forall>x. s_value s \<noteq> VStr x"
  shows "generateSettings d sim =
           (if d < 3 then Inl RecursionError else Inr (sim\<lparr>raw_settings := Some sets\<rparr>))"
proof -
  let ?sim = "sim\<lparr>raw_settings := Some sets\<rparr>"
  have p: "parseSettings d ?sim = (if d < 2 then Inl RecursionError else Inr ?sim)" for d
  proof (cases d)
    case 0
    then show ?thesis by simp
  next
    case d: (Suc d1)
    show ?thesis
    proof (cases d1)
      case 0
      then show ?thesis using d by simp
    next
      case d1: (Suc d2)
      let ?body = "\<lambda>(i, j) sim.
               case raw_settings sim of
                 None \<Rightarrow> Inl TypeError
               | Some sets \<Rightarrow>
                   if i < length sets \<and> j < length (sets ! i)
                   then (case parseString d1 sim (s_value (sets ! i ! j)) of
                           Inl e \<Rightarrow> Inl e
                         | Inr (v, sim1) \<Rightarrow>
                             Inr (sim1\<lparr>raw_settings := map_option (set_value i j v) (raw_settings sim1)\<rparr>))
                   else Inl IndexError"
      have each: "?body ij ?sim = Inr ?sim" if "ij \<in> set (positions sets)" for ij
      proof -
        obtain i j where ij: "ij = (i, j)" by (cases ij)
        have b: "i < length sets" "j < length (sets ! i)"
          using positions_bounds[of i j sets] that ij by simp_all
        then have "sets ! i \<in> set sets" "sets ! i ! j \<in> set (sets ! i)" by simp_all
        then have "\<forall>x. s_value (sets ! i ! j) \<noteq> VStr x" using assms(3) by blast
        then have "parseString d1 ?sim (s_value (sets ! i ! j)) = Inr (s_value (sets ! i ! j), ?sim)"
          unfolding d1 by (rule parseString_not_string)
        then show ?thesis using b by (simp add: ij set_value_same)
      qed
      have fe: "for_each ?body (positions sets) ?sim = Inr ?sim"
        by (rule for_each_unchanged) (use each in simp)
      have gp: "settings_property d1 ?sim = Inr (Some sets, ?sim)"
        using settings_property_generated[of ?sim sets d1] assms(2) by (simp add: d1)
      have pos: "\<not> Suc d1 < 2" by (simp add: d1)
      show ?thesis unfolding d using pos by (simp add: gp fe)
    qed
  qed
  show ?thesis using p assms(1) by (cases d) auto
qed

lemma grid_values_sets:
  "length (values_sets grid_user grid_set) = 2"
  "values_sets grid_user solver_set = []"
  "values_sets grid_user extra_set = []"
  by (simp_all add: values_sets_def grid_user_def grid_set_def solver_set_def extra_set_def)

lemma grid_generated:
  "generated_sets grid_folder grid_user =
     grid_instances @ [[\<lparr>s_name = ''tol'', s_value = VFloat ''0.5'', s_exclude = False,
                          s_pattern = ''--{name}={value}''\<rparr>]]"
  by (simp add: generated_sets_def grid_folder_def append_set_def values_sets_def grid_user_def
        grid_set_def solver_set_def extra_set_def default_settings_def set_to_add_def grid_instances_def)

text \<open>
  Claim C4. \<open>generateSettings\<close> runs \<open>parseSettings\<close> on the list built by its loop, and
  that list is the concatenation, in the order of the declarations, of what each
  declaration contributes; a declaration only appends. With \<open>k \<ge> 1\<close> sets of values of
  the user named as the declaration, it contributes \<open>k\<close> instances in the order of the
  user; the \<open>i\<close>-th instance has the declared settings, in order, each with its declared
  name, \<open>exclude\<close> and pattern, and as value that of the \<open>i\<close>-th set of values under this
  name if there is one, the default otherwise: only declared names are looked up. With no
  such set of values, it contributes the defaults once if it is required and nothing
  otherwise. When no value of the list is a string and the list is not empty,
  \<open>generateSettings\<close> returns with exactly this list (three nested calls are needed).
\<close>

theorem generateSettings_expansion:
  "generateSettings (Suc d) sim =
     parseSettings d (sim\<lparr>raw_settings := Some (generated_sets (folder sim) (user sim))\<rparr>) \<and>
   generated_sets f u = concat (map (\<lambda>decl. append_set (setting_pattern f) u decl []) (settings f)) \<and>
   append_set p u decl raw = raw @ append_set p u decl [] \<and>
   (values_sets u decl \<noteq> [] \<longrightarrow>
      length (append_set p u decl []) = length (values_sets u decl) \<and>
      (\<forall>i < length (values_sets u decl).
         append_set p u decl [] ! i =
           map (\<lambda>s. \<lparr>s_name = sd_name s,
                     s_value = (case (values_sets u decl ! i) (sd_name s) of
                                  Some v \<Rightarrow> v
                                | None \<Rightarrow> sd_default s),
                     s_exclude = (sd_exclude s = Some True),
                     s_pattern = (case sd_pattern s of None \<Rightarrow> p | Some q \<Rightarrow> q)\<rparr>)
               (set_settings decl))) \<and>
   (values_sets u decl = [] \<and> required decl \<longrightarrow> append_set p u decl [] = [default_settings p decl]) \<and>
   (values_sets u decl = [] \<and> \<not> required decl \<longrightarrow> append_set p u decl [] = []) \<and>
   (generated_sets (folder sim) (user sim) \<noteq> [] \<and>
    (\<forall>st \<in> set (generated_sets (folder sim) (user sim)). \<forall>s \<in> set st. \<forall>x. s_value s \<noteq> VStr x) \<and>
    3 \<le> n \<longrightarrow>
      generateSettings n sim = Inr (sim\<lparr>raw_settings := Some (generated_sets (folder sim) (user sim))\<rparr>))"
proof -
  have a: "append_set p u decl raw = raw @ append_set p u decl []" for p decl raw
    by (simp add: append_set_expansion)
  have b: "generated_sets f u = concat (map (\<lambda>decl. append_set (setting_pattern f) u decl []) (settings f))"
    by (simp add: generated_sets_expansion append_set_expansion)
  have c: "length (append_set p u decl []) = length (values_sets u decl)" if "values_sets u decl \<noteq> []"
    using that by (cases "values_sets u decl") (simp_all add: append_set_expansion expansion_def)
  have d: "append_set p u decl [] ! i =
           map (\<lambda>s. \<lparr>s_name = sd_name s,
                     s_value = (case (values_sets u decl ! i) (sd_name s) of
                                  Some v \<Rightarrow> v
                                | None \<Rightarrow> sd_default s),
                     s_exclude = (sd_exclude s = Some True),
                     s_pattern = (case sd_pattern s of None \<Rightarrow> p | Some q \<Rightarrow> q)\<rparr>)
               (set_settings decl)"
    if "i < length (values_sets u decl)" for i
  proof -
    have ne: "values_sets u decl \<noteq> []" using that by auto
    then have "append_set p u decl [] = map (set_to_add (default_settings p decl)) (values_sets u decl)"
      by (cases "values_sets u decl") (simp_all add: append_set_expansion expansion_def)
    then have "append_set p u decl [] ! i = set_to_add (default_settings p decl) (values_sets u decl ! i)"
      using that by simp
    also have "\<dots> = map (\<lambda>s. \<lparr>s_name = sd_name s,
                     s_value = (case (values_sets u decl ! i) (sd_name s) of
                                  Some v \<Rightarrow> v
                                | None \<Rightarrow> sd_default s),
                     s_exclude = (sd_exclude s = Some True),
                     s_pattern = (case sd_pattern s of None \<Rightarrow> p | Some q \<Rightarrow> q)\<rparr>)
               (set_settings decl)"
      by (auto simp: set_to_add_def default_settings_def split: option.splits)
    finally show ?thesis .
  qed
  have e: "append_set p u decl [] = [default_settings p decl]" if "values_sets u decl = []" "required decl"
    using that by (simp add: append_set_def)
  have f: "append_set p u decl [] = []" if "values_sets u decl = []" "\<not> required decl"
    using that by (simp add: append_set_def)
  have g: "generateSettings n sim = Inr (sim\<lparr>raw_settings := Some (generated_sets (folder sim) (user sim))\<rparr>)"
    if "generated_sets (folder sim) (user sim) \<noteq> []"
      "\<forall>st \<in> set (generated_sets (folder sim) (user sim)). \<forall>s \<in> set st. \<forall>x. s_value s \<noteq> VStr x"
      "3 \<le> n"
    using settings_without_strings[OF refl that(1,2), of n] that(3) by simp
  have h: "generateSettings (Suc d) sim =
     parseSettings d (sim\<lparr>raw_settings := Some (generated_sets (folder sim) (user sim))\<rparr>)"
    by simp
  have cd: "values_sets u decl \<noteq> [] \<longrightarrow>
      length (append_set p u decl []) = length (values_sets u decl) \<and>
      (\<forall>i < length (values_sets u decl).
         append_set p u decl [] ! i =
           map (\<lambda>s. \<lparr>s_name = sd_name s,
                     s_value = (case (values_sets u decl ! i) (sd_name s) of
                                  Some v \<Rightarrow> v
                                | None \<Rightarrow> sd_default s),
                     s_exclude = (sd_exclude s = Some True),
                     s_pattern = (case sd_pattern s of None \<Rightarrow> p | Some q \<Rightarrow> q)\<rparr>)
               (set_settings decl))"
    using c d by blast
  have e': "values_sets u decl = [] \<and> required decl \<longrightarrow> append_set p u decl [] = [default_settings p decl]"
    using e by blast
  have f': "values_sets u decl = [] \<and> \<not> required decl \<longrightarrow> append_set p u decl [] = []"
    using f by blast
  have g': "generated_sets (folder sim) (user sim) \<noteq> [] \<and>
    (\<forall>st \<in> set (generated_sets (folder sim) (user sim)). \<forall>s \<in> set st. \<forall>x. s_value s \<noteq> VStr x) \<and>
    3 \<le> n \<longrightarrow>
      generateSettings n sim = Inr (sim\<lparr>raw_settings := Some (generated_sets (folder sim) (user sim))\<rparr>)"
    using g by blast
  show ?thesis by (intro conjI) (fact h b a cd e' f' g')+
qed

lemma list_of_two: "length xs = 2 \<Longrightarrow> xs = [xs ! 0, xs ! 1]"
  by (cases xs; cases "tl xs") auto

theorem generateSettings_expansion_witness:
  "length (values_sets grid_user grid_set) = 2 \<and>
   append_set ''--{name}={value}'' grid_user grid_set [] = grid_instances \<and>
   values_sets grid_user solver_set = [] \<and> required solver_set \<and>
   append_set ''--{name}={value}'' grid_user solver_set [] =
     [[\<lparr>s_name = ''tol'', s_value = VFloat ''0.5'', s_exclude = False, s_pattern = ''--{name}={value}''\<rparr>]] \<and>
   values_sets grid_user extra_set = [] \<and> \<not> required extra_set \<and>
   append_set ''--{name}={value}'' grid_user extra_set grid_instances = grid_instances \<and>
   generateSettings 3 grid_sim =
     Inr (grid_sim\<lparr>raw_settings :=
            Some (grid_instances @ [[\<lparr>s_name = ''tol'', s_value = VFloat ''0.5'', s_exclude = False,
                                       s_pattern = ''--{name}={value}''\<rparr>]])\<rparr>)"
proof -
  note t = generateSettings_expansion[where sim = grid_sim and n = 3 and u = grid_user
      and p = "''--{name}={value}''" and f = grid_folder and d = 2]
  have g: "generated_sets (folder grid_sim) (user grid_sim) =
     grid_instances @ [[\<lparr>s_name = ''tol'', s_value = VFloat ''0.5'', s_exclude = False,
                          s_pattern = ''--{name}={value}''\<rparr>]]"
    using grid_generated by (simp add: grid_sim_def)
  have 1: "append_set ''--{name}={value}'' grid_user grid_set [] = grid_instances"
  proof -
    let ?new = "append_set ''--{name}={value}'' grid_user grid_set []"
    have vs: "values_sets grid_user grid_set \<noteq> []" using grid_values_sets(1) by auto
    note t4 = t[where decl = grid_set and raw = "[]", THEN conjunct2, THEN conjunct2, THEN conjunct2,
        THEN conjunct1, THEN mp, OF vs]
    have len: "length ?new = 2" using t4 grid_values_sets(1) by simp
    have "?new ! 0 = grid_instances ! 0"
      using t4[THEN conjunct2, THEN spec, of 0] grid_values_sets(1)
      by (simp add: grid_set_def values_sets_def grid_user_def grid_instances_def)
    moreover have "?new ! 1 = grid_instances ! 1"
      using t4[THEN conjunct2, THEN spec, of 1] grid_values_sets(1)
      by (simp add: grid_set_def values_sets_def grid_user_def grid_instances_def)
    ultimately show ?thesis using list_of_two[OF len] by (simp add: grid_instances_def)
  qed
  have 2: "append_set ''--{name}={value}'' grid_user solver_set [] =
     [[\<lparr>s_name = ''tol'', s_value = VFloat ''0.5'', s_exclude = False, s_pattern = ''--{name}={value}''\<rparr>]]"
    using t[where decl = solver_set and raw = "[]"] grid_values_sets(2)
    by (simp add: solver_set_def default_settings_def)
  have 3: "append_set ''--{name}={value}'' grid_user extra_set grid_instances = grid_instances"
    using t[where decl = extra_set and raw = grid_instances] grid_values_sets(3)
    by (simp add: extra_set_def)
  have 4: "generateSettings 3 grid_sim =
     Inr (grid_sim\<lparr>raw_settings :=
            Some (grid_instances @ [[\<lparr>s_name = ''tol'', s_value = VFloat ''0.5'', s_exclude = False,
                                       s_pattern = ''--{name}={value}''\<rparr>]])\<rparr>)"
  proof -
    have hyp: "generated_sets (folder grid_sim) (user grid_sim) \<noteq> [] \<and>
      (\<forall>st \<in> set (generated_sets (folder grid_sim) (user grid_sim)). \<forall>s \<in> set st. \<forall>x. s_value s \<noteq> VStr x) \<and>
      3 \<le> (3::nat)"
      unfolding g by (simp add: grid_instances_def)
    show ?thesis
      using t[where decl = grid_set and raw = "[]", THEN conjunct2, THEN conjunct2, THEN conjunct2,
        THEN conjunct2, THEN conjunct2, THEN conjunct2, THEN mp, OF hyp]
      unfolding g .
  qed
  show ?thesis using 1 2 3 4 grid_values_sets by (simp add: solver_set_def extra_set_def)
qed


subsection \<open>A simulation none of whose sets has an instance\<close>

lemma optional_sim_facts:
  "py_not (raw_settings optional_sim)"
  "generated_sets (folder optional_sim) (user optional_sim) = []"
  "generated_globals (folder optional_sim) (user optional_sim) =
     [\<lparr>g_name = ''seed'', g_value = VInt 0\<rparr>, \<lparr>g_name = ''title'', g_value = VStr ''run {setting:n}''\<rparr>]"
  by (simp_all add: optional_sim_def optional_folder_def py_not_def generated_sets_def append_set_def
        values_sets_def generated_globals_def)

lemma untitled_sim_facts:
  "py_not (raw_settings untitled_sim)"
  "py_not (raw_globalsettings untitled_sim)"
  "generated_sets (folder untitled_sim) (user untitled_sim) = []"
  "generated_globals (folder untitled_sim) (user untitled_sim) =
     [\<lparr>g_name = ''seed'', g_value = VInt 0\<rparr>, \<lparr>g_name = ''title'', g_value = VInt 7\<rparr>]"
  by (simp_all add: untitled_sim_def optional_sim_def optional_folder_def py_not_def generated_sets_def
        append_set_def values_sets_def generated_globals_def)

text \<open>
  For a simulation whose settings are not generated yet, no set of
  which is required and none of which is named by a set of values of the user, the loop
  of \<open>generateSettings\<close> builds the empty list. Whatever the bound on the depth of calls,
  \<open>settings\<close>, \<open>reduced_settings\<close> and \<open>parseString\<close> on any string end in
  \<open>RecursionError\<close> (the property \<open>_settings\<close> takes the empty list for a list not yet
  generated and calls \<open>generateSettings\<close> again, which reads \<open>_settings\<close> again): the
  \<open>reduce\<close> over the empty list, and its \<open>TypeError\<close>, are never reached. \<open>parseString\<close>
  on a value that is not a string returns it. \<open>generateGlobalSettings\<close> ends in
  \<open>RecursionError\<close> when the value of some global setting is a string, and returns
  (three nested calls are enough) when there are global settings, none of them a string.
\<close>

lemma no_instances_behaviour:
  assumes "py_not (raw_settings sim)"
    and "\<forall>decl \<in> set (settings (folder sim)).
           \<not> required decl \<and> (\<forall>s \<in> set (user_sets (user sim)). vs_set s \<noteq> set_name decl)"
  shows "generated_sets (folder sim) (user sim) = [] \<and>
     (\<forall>d. settings_view d sim = Inl RecursionError) \<and>
     (\<forall>d. reduced_settings d sim = Inl RecursionError) \<and>
     (\<forall>d s. parseString d sim (VStr s) = Inl RecursionError) \<and>
     (\<forall>d v. (\<forall>s. v \<noteq> VStr s) \<longrightarrow> parseString (Suc d) sim v = Inr (v, sim)) \<and>
     ((\<exists>g \<in> set (generated_globals (folder sim) (user sim)). \<exists>s. g_value g = VStr s) \<longrightarrow>
        (\<forall>d. generateGlobalSettings d sim = Inl RecursionError)) \<and>
     (py_not (raw_globalsettings sim) \<and> generated_globals (folder sim) (user sim) \<noteq> [] \<and>
      (\<forall>g \<in> set (generated_globals (folder sim) (user sim)). \<forall>s. g_value g \<noteq> VStr s) \<longrightarrow>
        (\<forall>d. generateGlobalSettings (d + 3) sim =
               Inr (sim\<lparr>raw_globalsettings := Some (generated_globals (folder sim) (user sim))\<rparr>)))"
proof -
  have e: "generated_sets (folder sim) (user sim) = []"
    using assms(2) by (simp add: generated_sets_Nil values_sets_Nil)
  then have ni: "no_instances sim" using assms(1) by (simp add: no_instances_def)
  have a: "\<forall>d. settings_view d sim = Inl RecursionError"
    using no_instances_reduced_settings(1)[OF ni] by simp
  have b: "\<forall>d. reduced_settings d sim = Inl RecursionError"
    using no_instances_reduced_settings(2)[OF ni] by simp
  have c: "\<forall>d s. parseString d sim (VStr s) = Inl RecursionError"
    using no_instances_parseString[OF ni] by simp
  have d: "\<forall>d v. (\<forall>s. v \<noteq> VStr s) \<longrightarrow> parseString (Suc d) sim v = Inr (v, sim)"
    using parseString_not_string by blast
  have f: "(\<exists>g \<in> set (generated_globals (folder sim) (user sim)). \<exists>s. g_value g = VStr s) \<longrightarrow>
        (\<forall>d. generateGlobalSettings d sim = Inl RecursionError)"
    using no_instances_generateGlobalSettings[OF ni] by blast
  have g: "py_not (raw_globalsettings sim) \<and> generated_globals (folder sim) (user sim) \<noteq> [] \<and>
      (\<forall>g \<in> set (generated_globals (folder sim) (user sim)). \<forall>s. g_value g \<noteq> VStr s) \<longrightarrow>
        (\<forall>d. generateGlobalSettings (d + 3) sim =
               Inr (sim\<lparr>raw_globalsettings := Some (generated_globals (folder sim) (user sim))\<rparr>))"
  proof (intro impI allI)
    fix d
    assume h: "py_not (raw_globalsettings sim) \<and> generated_globals (folder sim) (user sim) \<noteq> [] \<and>
      (\<forall>g \<in> set (generated_globals (folder sim) (user sim)). \<forall>s. g_value g \<noteq> VStr s)"
    then have h1: "py_not (raw_globalsettings sim)"
      and h2: "generated_globals (folder sim) (user sim) \<noteq> []"
      and h3: "\<forall>g \<in> set (generated_globals (folder sim) (user sim)). \<forall>s. g_value g \<noteq> VStr s"
      by simp_all
    show "generateGlobalSettings (d + 3) sim =
               Inr (sim\<lparr>raw_globalsettings := Some (generated_globals (folder sim) (user sim))\<rparr>)"
      using globals_without_strings(2)[OF h1 refl h2 h3, of "d + 3"] by simp
  qed
  show ?thesis by (intro conjI) (fact e a b c d f g)+
qed

lemma no_instances_behaviour_example:
  "py_not (raw_settings optional_sim) \<and>
   generated_sets (folder optional_sim) (user optional_sim) = [] \<and>
   reduced_settings 50 optional_sim = Inl RecursionError \<and>
   parseString 50 optional_sim (VStr ''{setting:n}'') = Inl RecursionError \<and>
   parseString 50 optional_sim (VInt 3) = Inr (VInt 3, optional_sim) \<and>
   generateGlobalSettings 50 optional_sim = Inl RecursionError \<and>
   generateGlobalSettings 50 untitled_sim =
     Inr (untitled_sim\<lparr>raw_globalsettings :=
            Some [\<lparr>g_name = ''seed'', g_value = VInt 0\<rparr>, \<lparr>g_name = ''title'', g_value = VInt 7\<rparr>]\<rparr>)"
proof -
  have h1: "\<forall>decl \<in> set (settings (folder optional_sim)).
           \<not> required decl \<and> (\<forall>s \<in> set (user_sets (user optional_sim)). vs_set s \<noteq> set_name decl)"
    by (simp add: optional_sim_def optional_folder_def)
  have h2: "\<forall>decl \<in> set (settings (folder untitled_sim)).
           \<not> required decl \<and> (\<forall>s \<in> set (user_sets (user untitled_sim)). vs_set s \<noteq> set_name decl)"
    by (simp add: untitled_sim_def optional_sim_def optional_folder_def)
  note t = no_instances_behaviour[OF optional_sim_facts(1) h1]
  note u = no_instances_behaviour[OF untitled_sim_facts(1) h2]
  have 1: "reduced_settings 50 optional_sim = Inl RecursionError"
    using t by blast
  have 2: "parseString 50 optional_sim (VStr ''{setting:n}'') = Inl RecursionError"
    using t by blast
  have 3: "parseString (Suc 49) optional_sim (VInt 3) = Inr (VInt 3, optional_sim)"
    using t[THEN conjunct2, THEN conjunct2, THEN conjunct2, THEN conjunct2, THEN conjunct1,
        THEN spec, THEN spec, of "VInt 3" 49] by simp
  have 4: "generateGlobalSettings 50 optional_sim = Inl RecursionError"
    using t[THEN conjunct2, THEN conjunct2, THEN conjunct2, THEN conjunct2, THEN conjunct2, THEN conjunct1]
    by (simp add: optional_sim_facts(3))
  have "\<forall>d. generateGlobalSettings (d + 3) untitled_sim =
     Inr (untitled_sim\<lparr>raw_globalsettings :=
            Some [\<lparr>g_name = ''seed'', g_value = VInt 0\<rparr>, \<lparr>g_name = ''title'', g_value = VInt 7\<rparr>]\<rparr>)"
    using u[THEN conjunct2, THEN conjunct2, THEN conjunct2, THEN conjunct2, THEN conjunct2, THEN conjunct2]
      untitled_sim_facts(2)
    by (simp add: untitled_sim_facts(4))
  from this[THEN spec, of 47]
  have 5: "generateGlobalSettings 50 untitled_sim =
     Inr (untitled_sim\<lparr>raw_globalsettings :=
            Some [\<lparr>g_name = ''seed'', g_value = VInt 0\<rparr>, \<lparr>g_name = ''title'', g_value = VInt 7\<rparr>]\<rparr>)"
    by simp
  have p3: "parseString 50 optional_sim (VInt 3) = Inr (VInt 3, optional_sim)"
    using 3 by (simp only: eval_nat_numeral) simp
  show ?thesis using optional_sim_facts(1,2) 1 2 p3 4 5 by simp
qed

text \<open>
  On \<open>optional_sim\<close>, \<open>reduced_settings\<close> never ends in
  \<open>TypeError\<close>, \<open>parseString\<close> returns on the integer 3, and \<open>generateGlobalSettings\<close>
  returns on \<open>untitled_sim\<close>.
\<close>

lemma optional_sim_behaviour:
  "generated_sets (folder optional_sim) (user optional_sim) = [] \<and>
   (\<forall>d. reduced_settings d optional_sim = Inl RecursionError) \<and>
   (\<forall>d. reduced_settings d optional_sim \<noteq> Inl TypeError) \<and>
   (\<forall>d. parseString (Suc d) optional_sim (VInt 3) = Inr (VInt 3, optional_sim)) \<and>
   (\<forall>d. generateGlobalSettings (d + 3) untitled_sim =
          Inr (untitled_sim\<lparr>raw_globalsettings :=
                 Some [\<lparr>g_name = ''seed'', g_value = VInt 0\<rparr>, \<lparr>g_name = ''title'', g_value = VInt 7\<rparr>]\<rparr>))"
proof -
  have ni: "no_instances optional_sim"
    using optional_sim_facts(1,2) by (simp add: no_instances_def)
  have r: "\<forall>d. reduced_settings d optional_sim = Inl RecursionError"
    using no_instances_reduced_settings(2)[OF ni] by simp
  then have r': "\<forall>d. reduced_settings d optional_sim \<noteq> Inl TypeError" by simp
  have p: "\<forall>d. parseString (Suc d) optional_sim (VInt 3) = Inr (VInt 3, optional_sim)"
    by simp
  have g: "\<forall>d. generateGlobalSettings (d + 3) untitled_sim =
          Inr (untitled_sim\<lparr>raw_globalsettings :=
                 Some [\<lparr>g_name = ''seed'', g_value = VInt 0\<rparr>, \<lparr>g_name = ''title'', g_value = VInt 7\<rparr>]\<rparr>)"
  proof
    fix d
    show "generateGlobalSettings (d + 3) untitled_sim =
          Inr (untitled_sim\<lparr>raw_globalsettings :=
                 Some [\<lparr>g_name = ''seed'', g_value = VInt 0\<rparr>, \<lparr>g_name = ''title'', g_value = VInt 7\<rparr>]\<rparr>)"
      using globals_without_strings(2)[OF untitled_sim_facts(2) untitled_sim_facts(4), of "d + 3"]
      by simp
  qed
  show ?thesis by (intro conjI) (fact optional_sim_facts(2) r r' p g)+
qed


text \<open>
  Claim C9 fails on the code. On \<open>optional_sim\<close> the loop of \<open>generateSettings\<close> builds the
  empty list, over which \<open>reduce\<close> raises \<open>TypeError\<close>. But the property \<open>_settings\<close> takes
  the empty list for a list that is not generated yet: it calls \<open>generateSettings\<close> again,
  whose \<open>parseSettings\<close> reads \<open>_settings\<close> again. Whatever the bound on the depth of
  calls, \<open>_settings\<close>, \<open>settings\<close>, \<open>reduced_settings\<close>, \<open>parseString\<close> on any string and
  \<open>generateGlobalSettings\<close> end in \<open>RecursionError\<close>; the list is never returned.
\<close>

theorem no_instances_raises_RecursionError:
  "generated_sets (folder optional_sim) (user optional_sim) = [] \<and>
   reduce_dicts (map settings_dict (generated_sets (folder optional_sim) (user optional_sim))) = Inl TypeError \<and>
   (\<forall>d. settings_property d optional_sim = Inl RecursionError) \<and>
   (\<forall>d. settings_view d optional_sim = Inl RecursionError) \<and>
   (\<forall>d. reduced_settings d optional_sim = Inl RecursionError) \<and>
   (\<forall>d s. parseString d optional_sim (VStr s) = Inl RecursionError) \<and>
   (\<forall>d. generateGlobalSettings d optional_sim = Inl RecursionError)"
proof -
  have ni: "no_instances optional_sim"
    using optional_sim_facts(1,2) by (simp add: no_instances_def)
  have a: "generated_sets (folder optional_sim) (user optional_sim) = []" by (rule optional_sim_facts(2))
  have b: "reduce_dicts (map settings_dict (generated_sets (folder optional_sim) (user optional_sim))) =
      Inl TypeError"
    unfolding a by simp
  have c: "\<forall>d. settings_property d optional_sim = Inl RecursionError"
    using no_instances_recursion[OF ni] by simp
  have d: "\<forall>d. settings_view d optional_sim = Inl RecursionError"
    using no_instances_reduced_settings(1)[OF ni] by simp
  have e: "\<forall>d. reduced_settings d optional_sim = Inl RecursionError"
    using no_instances_reduced_settings(2)[OF ni] by simp
  have f: "\<forall>d s. parseString d optional_sim (VStr s) = Inl RecursionError"
    using no_instances_parseString[OF ni] by simp
  have "\<exists>g \<in> set (generated_globals (folder optional_sim) (user optional_sim)). \<exists>s. g_value g = VStr s"
    unfolding optional_sim_facts(3) by simp
  from no_instances_generateGlobalSettings[OF ni this]
  have g: "\<forall>d. generateGlobalSettings d optional_sim = Inl RecursionError" by simp
  show ?thesis by (intro conjI) (fact a b c d e f g)+
qed


subsection \<open>What \<open>parseString\<close> returns\<close>

lemma sample_sim_generated:
  "generated_sets (folder sample_sim) (user sample_sim) = sample_sets"
  "generated_globals (folder sample_sim) (user sample_sim) = sample_globals"
  by (simp_all add: sample_sim_def sample_sets_def sample_globals_def generated_sets_def
        generated_globals_def append_set_def values_sets_def default_settings_def)

lemma sample_lookup:
  "dicts_of sample_sets sample_globals Setting ''x'' = Some (VInt 2)"
  "dicts_of sample_sets sample_globals Setting ''pi'' = Some (VFloat ''3.14'')"
  "dicts_of sample_sets sample_globals Setting ''y'' = None"
  "dicts_of sample_sets sample_globals GlobalSetting ''seed'' = Some (VInt 0)"
  by (simp_all add: dicts_of_def reduced_def settings_dict_def globalsettings_dict_def
        sample_sets_def sample_globals_def)

lemma sample_fullmatch:
  "fullmatch ''n={setting:x}cm'' = None" "fullmatch ''n=2cm'' = None"
  by (simp_all add: fullmatch_no_brace)

text \<open>
  \<open>parseString\<close> returns a value that is not a string as it is. For a string,
  let the two dictionaries be those \<open>reduced_settings\<close> and \<open>reduced_globalsettings\<close>
  return. A string has a full match exactly when it is the text of one tag, with a name
  of one or more characters other than the closing brace; \<open>parseString\<close> then returns the
  value of the name in the dictionary of the category, as it is stored (not its text), and
  the string itself when the name is not in the dictionary. Any other string goes through
  the substitution pass, whose result is either returned or parsed again: in that pass a
  tag is replaced by \<open>str\<close> of the value of its name, a tag whose name is unknown is kept,
  and so is every character that does not start a tag.
\<close>

lemma parseString_after_dictionaries:
  assumes "reduced_settings d sim = Inr (setting_dict, sim1)"
    and "reduced_globalsettings d sim1 = Inr (globalsetting_dict, sim2)"
    and "dicts = (\<lambda>cat. case cat of Setting \<Rightarrow> setting_dict | GlobalSetting \<Rightarrow> globalsetting_dict)"
  shows "((\<forall>s. v \<noteq> VStr s) \<longrightarrow> parseString (Suc n) sim0 v = Inr (v, sim0)) \<and>
     (fullmatch s = Some (cat, nm) \<longleftrightarrow> s = tag_text cat nm \<and> nm \<noteq> [] \<and> CHR ''}'' \<notin> set nm) \<and>
     (fullmatch s = Some (cat, nm) \<longrightarrow>
        parseString (Suc d) sim (VStr s) =
          Inr (case dicts cat nm of Some w \<Rightarrow> w | None \<Rightarrow> VStr s, sim2)) \<and>
     (fullmatch s = None \<longrightarrow>
        parseString (Suc d) sim (VStr s) =
          (if substitute dicts s \<in> set (parser_recursion_stack sim2 @ [s])
           then Inr (VStr (substitute dicts s), sim2\<lparr>parser_recursion_stack := []\<rparr>)
           else parseString d (sim2\<lparr>parser_recursion_stack := parser_recursion_stack sim2 @ [s]\<rparr>)
                  (VStr (substitute dicts s)))) \<and>
     (nm \<noteq> [] \<and> CHR ''}'' \<notin> set nm \<longrightarrow>
        substitute dicts (tag_text cat nm @ rest) =
          (case dicts cat nm of Some w \<Rightarrow> py_str w | None \<Rightarrow> tag_text cat nm) @ substitute dicts rest) \<and>
     (match_tag (c # cs) = None \<longrightarrow> substitute dicts (c # cs) = c # substitute dicts cs) \<and>
     (CHR ''{'' \<notin> set lit \<longrightarrow> substitute dicts (lit @ rest) = lit @ substitute dicts rest)"
proof -
  have a: "(\<forall>s. v \<noteq> VStr s) \<longrightarrow> parseString (Suc n) sim0 v = Inr (v, sim0)"
    using parseString_not_string by blast
  have b: "fullmatch s = Some (cat, nm) \<longleftrightarrow> s = tag_text cat nm \<and> nm \<noteq> [] \<and> CHR ''}'' \<notin> set nm"
    using fullmatch_Some[of s cat nm] fullmatch_tag_text[of nm cat] by blast
  have c: "fullmatch s = Some (cat, nm) \<longrightarrow>
        parseString (Suc d) sim (VStr s) =
          Inr (case dicts cat nm of Some w \<Rightarrow> w | None \<Rightarrow> VStr s, sim2)"
    using assms by (cases cat) (simp_all split: option.splits)
  have e: "fullmatch s = None \<longrightarrow>
        parseString (Suc d) sim (VStr s) =
          (if substitute dicts s \<in> set (parser_recursion_stack sim2 @ [s])
           then Inr (VStr (substitute dicts s), sim2\<lparr>parser_recursion_stack := []\<rparr>)
           else parseString d (sim2\<lparr>parser_recursion_stack := parser_recursion_stack sim2 @ [s]\<rparr>)
                  (VStr (substitute dicts s)))"
    using assms(1,2) unfolding assms(3) by (simp add: Let_def)
  have f: "nm \<noteq> [] \<and> CHR ''}'' \<notin> set nm \<longrightarrow>
        substitute dicts (tag_text cat nm @ rest) =
          (case dicts cat nm of Some w \<Rightarrow> py_str w | None \<Rightarrow> tag_text cat nm) @ substitute dicts rest"
    using substitute_tag[of nm dicts cat rest] by blast
  have g: "match_tag (c # cs) = None \<longrightarrow> substitute dicts (c # cs) = c # substitute dicts cs"
    by simp
  have h: "CHR ''{'' \<notin> set lit \<longrightarrow> substitute dicts (lit @ rest) = lit @ substitute dicts rest"
    using substitute_literal[of lit dicts rest] by blast
  show ?thesis by (intro conjI) (fact a b c e f g h)+
qed

lemma dicts_of_eq:
  "dicts_of sets gs = (\<lambda>cat. case cat of Setting \<Rightarrow> reduced sets | GlobalSetting \<Rightarrow> globalsettings_dict gs)"
  by (rule ext) (simp add: dicts_of_def)

lemma sample_reads:
  assumes "3 \<le> d"
  shows "reduced_settings d (sample_sim\<lparr>parser_recursion_stack := st\<rparr>) =
           Inr (reduced sample_sets, sample_sim\<lparr>parser_recursion_stack := st\<rparr>)"
    and "reduced_globalsettings d (sample_sim\<lparr>parser_recursion_stack := st\<rparr>) =
           Inr (globalsettings_dict sample_globals, sample_sim\<lparr>parser_recursion_stack := st\<rparr>)"
proof -
  let ?sim = "sample_sim\<lparr>parser_recursion_stack := st\<rparr>"
  have r: "raw_settings ?sim = Some sample_sets" "raw_globalsettings ?sim = Some sample_globals"
    by (simp_all add: sample_sim_def)
  have ne: "sample_sets \<noteq> []" "sample_globals \<noteq> []"
    by (simp_all add: sample_sets_def sample_globals_def)
  show "reduced_settings d ?sim = Inr (reduced sample_sets, ?sim)"
    using reduced_settings_generated[OF r(1) ne(1), of d] assms by simp
  show "reduced_globalsettings d ?sim = Inr (globalsettings_dict sample_globals, ?sim)"
    using reduced_globalsettings_generated[OF r(2) ne(2), of d] assms by simp
qed

lemma sample_sim_stack: "sample_sim\<lparr>parser_recursion_stack := []\<rparr> = sample_sim"
  by (simp add: sample_sim_def)

lemma py_str_two: "py_str (VInt 2) = ''2''"
  by (simp add: str_int_def digit_char_def)

lemma parseString_sample:
  "parseString 5 sample_sim (VInt 7) = Inr (VInt 7, sample_sim) \<and>
   fullmatch ''{setting:pi}'' = Some (Setting, ''pi'') \<and>
   parseString 5 sample_sim (VStr ''{setting:pi}'') = Inr (VFloat ''3.14'', sample_sim) \<and>
   parseString 5 sample_sim (VStr ''{globalsetting:seed}'') = Inr (VInt 0, sample_sim) \<and>
   parseString 5 sample_sim (VStr ''{setting:y}'') = Inr (VStr ''{setting:y}'', sample_sim) \<and>
   fullmatch ''n={setting:x}cm'' = None \<and>
   substitute (dicts_of sample_sets sample_globals) ''n={setting:x}cm'' = ''n=2cm'' \<and>
   substitute (dicts_of sample_sets sample_globals) ''{setting:y}/{setting:x}'' = ''{setting:y}/2'' \<and>
   parseString 5 sample_sim (VStr ''n={setting:x}cm'') = Inr (VStr ''n=2cm'', sample_sim)"
proof -
  let ?dicts = "dicts_of sample_sets sample_globals"
  let ?sim1 = "sample_sim\<lparr>parser_recursion_stack := [''n={setting:x}cm'']\<rparr>"
  have five: "(5::nat) = Suc 4" and four: "(4::nat) = Suc 3" by simp_all
  have le: "(3::nat) \<le> 4" "(3::nat) \<le> 3" by simp_all
  note t = parseString_after_dictionaries[OF
      sample_reads(1)[OF le(1), of "[]", unfolded sample_sim_stack]
      sample_reads(2)[OF le(1), of "[]", unfolded sample_sim_stack] dicts_of_eq]
  note u = parseString_after_dictionaries[OF
      sample_reads(1)[OF le(2), of "[''n={setting:x}cm'']"]
      sample_reads(2)[OF le(2), of "[''n={setting:x}cm'']"] dicts_of_eq]
  have "\<forall>s. VInt 7 \<noteq> VStr s" by simp
  from t[where v = "VInt 7" and n = 4 and ?sim0.0 = sample_sim, THEN conjunct1, THEN mp, OF this]
  have 1: "parseString 5 sample_sim (VInt 7) = Inr (VInt 7, sample_sim)"
    unfolding five .
  have pi: "fullmatch ''{setting:pi}'' = Some (Setting, ''pi'')"
    using t[where s = "''{setting:pi}''" and cat = Setting and nm = "''pi''", THEN conjunct2, THEN conjunct1]
    by (simp add: tag_text_def)
  have seed: "fullmatch ''{globalsetting:seed}'' = Some (GlobalSetting, ''seed'')"
    using t[where s = "''{globalsetting:seed}''" and cat = GlobalSetting and nm = "''seed''",
        THEN conjunct2, THEN conjunct1]
    by (simp add: tag_text_def)
  have y: "fullmatch ''{setting:y}'' = Some (Setting, ''y'')"
    using t[where s = "''{setting:y}''" and cat = Setting and nm = "''y''", THEN conjunct2, THEN conjunct1]
    by (simp add: tag_text_def)
  note full = t[THEN conjunct2, THEN conjunct2, THEN conjunct1, THEN mp]
  have 2: "parseString 5 sample_sim (VStr ''{setting:pi}'') = Inr (VFloat ''3.14'', sample_sim)"
    unfolding five using full[OF pi] by (simp only: sample_lookup option.case)
  have 3: "parseString 5 sample_sim (VStr ''{globalsetting:seed}'') = Inr (VInt 0, sample_sim)"
    unfolding five using full[OF seed] by (simp only: sample_lookup option.case)
  have 4: "parseString 5 sample_sim (VStr ''{setting:y}'') = Inr (VStr ''{setting:y}'', sample_sim)"
    unfolding five using full[OF y] by (simp only: sample_lookup option.case)
  have nx: "''x'' \<noteq> [] \<and> CHR ''}'' \<notin> set ''x''" and ny: "''y'' \<noteq> [] \<and> CHR ''}'' \<notin> set ''y''"
    by simp_all
  have nb: "CHR ''{'' \<notin> set ''cm''" "CHR ''{'' \<notin> set ''n=''" "CHR ''{'' \<notin> set ''/''"
    "CHR ''{'' \<notin> set ''n=2cm''"
    by simp_all
  have cm: "substitute ?dicts ''cm'' = ''cm''"
    using t[where lit = "''cm''" and rest = "[]", THEN conjunct2, THEN conjunct2, THEN conjunct2, THEN conjunct2, THEN conjunct2,
        THEN conjunct2, THEN mp, OF nb(1)]
    by (simp only: substitute.simps(1) append_Nil2)
  have x: "substitute ?dicts (tag_text Setting ''x'' @ ''cm'') = ''2cm''"
    using t[where nm = "''x''" and cat = Setting and rest = "''cm''", THEN conjunct2, THEN conjunct2, THEN conjunct2, THEN conjunct2, THEN conjunct1, THEN mp, OF nx]
    by (simp only: sample_lookup option.case py_str_two cm append.simps)
  have "substitute ?dicts ''n={setting:x}cm'' = substitute ?dicts (''n='' @ tag_text Setting ''x'' @ ''cm'')"
    by (simp add: tag_text_def)
  also have "\<dots> = ''n='' @ substitute ?dicts (tag_text Setting ''x'' @ ''cm'')"
    by (rule t[where lit = "''n=''" and rest = "tag_text Setting ''x'' @ ''cm''", THEN conjunct2, THEN conjunct2, THEN conjunct2, THEN conjunct2, THEN conjunct2,
        THEN conjunct2, THEN mp, OF nb(2)])
  also have "\<dots> = ''n=2cm''"
    by (simp only: x append.simps)
  finally have 5: "substitute ?dicts ''n={setting:x}cm'' = ''n=2cm''" .
  have x0: "substitute ?dicts (tag_text Setting ''x'' @ []) = ''2''"
    using t[where nm = "''x''" and cat = Setting and rest = "[]", THEN conjunct2, THEN conjunct2, THEN conjunct2, THEN conjunct2, THEN conjunct1, THEN mp, OF nx]
    by (simp only: sample_lookup option.case py_str_two substitute.simps(1) append_Nil2)
  have sx: "substitute ?dicts (''/'' @ tag_text Setting ''x'' @ []) = ''/2''"
    using t[where lit = "''/''" and rest = "tag_text Setting ''x'' @ []", THEN conjunct2, THEN conjunct2, THEN conjunct2, THEN conjunct2, THEN conjunct2,
        THEN conjunct2, THEN mp, OF nb(3)]
    by (simp only: x0 append.simps)
  have "substitute ?dicts ''{setting:y}/{setting:x}'' =
      substitute ?dicts (tag_text Setting ''y'' @ ''/'' @ tag_text Setting ''x'' @ [])"
    by (simp add: tag_text_def)
  also have "\<dots> = tag_text Setting ''y'' @ ''/2''"
    using t[where nm = "''y''" and cat = Setting and rest = "''/'' @ tag_text Setting ''x'' @ []", THEN conjunct2, THEN conjunct2, THEN conjunct2, THEN conjunct2, THEN conjunct1, THEN mp, OF ny]
    by (simp only: sample_lookup option.case sx)
  also have "\<dots> = ''{setting:y}/2''"
    by (simp add: tag_text_def)
  finally have 6: "substitute ?dicts ''{setting:y}/{setting:x}'' = ''{setting:y}/2''" .
  have stable: "substitute ?dicts ''n=2cm'' = ''n=2cm''"
    using t[where lit = "''n=2cm''" and rest = "[]", THEN conjunct2, THEN conjunct2, THEN conjunct2, THEN conjunct2, THEN conjunct2,
        THEN conjunct2, THEN mp, OF nb(4)]
    by (simp only: substitute.simps(1) append_Nil2)
  note part = t[THEN conjunct2, THEN conjunct2, THEN conjunct2, THEN conjunct1, THEN mp]
  note part1 = u[THEN conjunct2, THEN conjunct2, THEN conjunct2, THEN conjunct1, THEN mp]
  have mem: "''n=2cm'' \<in> set (parser_recursion_stack ?sim1 @ [''n=2cm''])"
    by simp
  have clr: "?sim1\<lparr>parser_recursion_stack := []\<rparr> = sample_sim"
    by (simp add: sample_sim_def)
  have second: "parseString 4 ?sim1 (VStr ''n=2cm'') = Inr (VStr ''n=2cm'', sample_sim)"
    unfolding four using part1[OF sample_fullmatch(2)] by (simp only: stable mem if_True clr)
  have nonmem: "''n=2cm'' \<notin> set (parser_recursion_stack sample_sim @ [''n={setting:x}cm''])"
    by (simp add: sample_sim_def)
  have push: "sample_sim\<lparr>parser_recursion_stack := parser_recursion_stack sample_sim @ [''n={setting:x}cm'']\<rparr> = ?sim1"
    by (simp add: sample_sim_def)
  have 7: "parseString 5 sample_sim (VStr ''n={setting:x}cm'') = Inr (VStr ''n=2cm'', sample_sim)"
    unfolding five using part[OF sample_fullmatch(1)] second
    by (simp only: 5 nonmem if_False push)
  show ?thesis by (intro conjI) (fact 1 pi 2 3 4 sample_fullmatch(1) 5 6 7)+
qed


subsection \<open>A folder without global settings\<close>

lemma no_globals_recursion:
  "no_globals sim \<Longrightarrow>
     globalsettings_property d sim = Inl RecursionError \<and>
     generateGlobalSettings d sim = Inl RecursionError \<and>
     parseGlobalSettings d sim = Inl RecursionError"
proof (induction d arbitrary: sim)
  case 0
  show ?case by simp
next
  case (Suc d)
  have ng: "no_globals (sim\<lparr>raw_globalsettings := Some (generated_globals (folder sim) (user sim))\<rparr>)"
    using Suc.prems by (simp add: no_globals_def py_not_def)
  have a: "globalsettings_property (Suc d) sim = Inl RecursionError"
    using Suc.IH[OF Suc.prems] Suc.prems by (simp add: no_globals_def)
  have b: "generateGlobalSettings (Suc d) sim = Inl RecursionError"
    using Suc.IH[OF ng] by simp
  have c: "parseGlobalSettings (Suc d) sim = Inl RecursionError"
    using Suc.IH[OF Suc.prems] by simp
  show ?case using a b c by simp
qed

lemma no_globals_reduced_globalsettings:
  "no_globals sim \<Longrightarrow> reduced_globalsettings d sim = Inl RecursionError"
  using no_globals_recursion[of sim] by (cases d) simp_all

lemma settings_without_strings_reads:
  assumes "py_not (raw_settings sim)"
    and "generated_sets (folder sim) (user sim) = sets" "sets \<noteq> []"
    and "\<forall>st \<in> set sets. \<forall>s \<in> set st. \<forall>x. s_value s \<noteq> VStr x"
  shows "settings_property d sim =
           (if d < 4 then Inl RecursionError else Inr (Some sets, sim\<lparr>raw_settings := Some sets\<rparr>))"
    and "settings_view d sim =
           (if d < 5 then Inl RecursionError
            else Inr (map settings_dict sets, sim\<lparr>raw_settings := Some sets\<rparr>))"
    and "reduced_settings d sim =
           (if d < 6 then Inl RecursionError else Inr (reduced sets, sim\<lparr>raw_settings := Some sets\<rparr>))"
proof -
  note g = settings_without_strings[OF assms(2,3,4)]
  show p: "settings_property d sim =
           (if d < 4 then Inl RecursionError else Inr (Some sets, sim\<lparr>raw_settings := Some sets\<rparr>))" for d
    using g assms(1) by (cases d) auto
  show v: "settings_view d sim =
           (if d < 5 then Inl RecursionError
            else Inr (map settings_dict sets, sim\<lparr>raw_settings := Some sets\<rparr>))" for d
    using p by (cases d) auto
  show "reduced_settings d sim =
           (if d < 6 then Inl RecursionError else Inr (reduced sets, sim\<lparr>raw_settings := Some sets\<rparr>))"
    using v reduce_dicts_reduced[OF assms(3)] by (cases d) auto
qed

lemma bare_sim_facts:
  "py_not (raw_settings bare_sim)"
  "generated_sets (folder bare_sim) (user bare_sim) = sample_sets"
  "generated_globals (folder bare_sim) (user bare_sim) = []"
  "py_not (raw_globalsettings bare_sim)"
  by (simp_all add: bare_sim_def sample_sets_def generated_sets_def generated_globals_def append_set_def
        values_sets_def default_settings_def py_not_def)

lemma sample_sets_values:
  "sample_sets \<noteq> []" "\<forall>st \<in> set sample_sets. \<forall>s \<in> set st. \<forall>x. s_value s \<noteq> VStr x"
  by (simp_all add: sample_sets_def)

lemma bare_reduced_settings:
  "reduced_settings d bare_sim =
     (if d < 6 then Inl RecursionError else Inr (reduced sample_sets, bare_sim\<lparr>raw_settings := Some sample_sets\<rparr>))"
  by (rule settings_without_strings_reads(3)[OF bare_sim_facts(1,2) sample_sets_values])

text \<open>
  Claim C3 fails on the code. \<open>bare_sim\<close> is a simulation of a folder that declares no
  global setting. Its settings can be read, and \<open>x\<close> is 2 in them; \<open>{setting:x}\<close> is
  exactly one tag. But \<open>parseString\<close> reads both dictionaries before it looks at the
  string, and the property \<open>_globalsettings\<close> takes the empty list of global settings for
  a list that is not generated yet: it calls \<open>generateGlobalSettings\<close> again, whose
  \<open>parseGlobalSettings\<close> reads \<open>_globalsettings\<close> again. Whatever the bound on the depth
  of calls, \<open>parseString\<close> on \<open>{setting:x}\<close>, and on every string, ends in
  \<open>RecursionError\<close>, before and after the settings are generated.
\<close>

theorem parseString_fails_without_globalsettings:
  "globalsettings (folder bare_sim) = [] \<and>
   (\<forall>d. reduced_settings (d + 6) bare_sim =
          Inr (reduced sample_sets, bare_sim\<lparr>raw_settings := Some sample_sets\<rparr>)) \<and>
   reduced sample_sets ''x'' = Some (VInt 2) \<and>
   fullmatch ''{setting:x}'' = Some (Setting, ''x'') \<and>
   (\<forall>d. reduced_globalsettings d bare_sim = Inl RecursionError) \<and>
   (\<forall>d. parseString d bare_sim (VStr ''{setting:x}'') = Inl RecursionError) \<and>
   (\<forall>d s. parseString d bare_sim (VStr s) = Inl RecursionError) \<and>
   (\<forall>d s. parseString d (bare_sim\<lparr>raw_settings := Some sample_sets\<rparr>) (VStr s) = Inl RecursionError)"
proof -
  let ?gen = "bare_sim\<lparr>raw_settings := Some sample_sets\<rparr>"
  have ng: "no_globals bare_sim" "no_globals ?gen"
    using bare_sim_facts(3,4) by (simp_all add: no_globals_def)
  have a: "globalsettings (folder bare_sim) = []" by (simp add: bare_sim_def)
  have b: "\<forall>d. reduced_settings (d + 6) bare_sim = Inr (reduced sample_sets, ?gen)"
    by (simp add: bare_reduced_settings)
  have c: "reduced sample_sets ''x'' = Some (VInt 2)"
    using sample_lookup(1) by (simp add: dicts_of_def)
  have d: "fullmatch ''{setting:x}'' = Some (Setting, ''x'')"
    using fullmatch_tag_text[of "''x''" Setting] by (simp add: tag_text_def)
  have e: "\<forall>d. reduced_globalsettings d bare_sim = Inl RecursionError"
    using no_globals_reduced_globalsettings[OF ng(1)] by simp
  have p: "parseString d bare_sim (VStr s) = Inl RecursionError" for d s
  proof (cases d)
    case 0
    then show ?thesis by simp
  next
    case (Suc d1)
    show ?thesis
    proof (cases "d1 < 6")
      case True
      then show ?thesis unfolding Suc by (simp add: bare_reduced_settings)
    next
      case False
      then show ?thesis unfolding Suc
        by (simp add: bare_reduced_settings no_globals_reduced_globalsettings[OF ng(2)])
    qed
  qed
  have rs: "reduced_settings d ?gen = (if d < 3 then Inl RecursionError else Inr (reduced sample_sets, ?gen))" for d
    by (rule reduced_settings_generated) (simp_all add: sample_sets_values(1))
  have q: "parseString d ?gen (VStr s) = Inl RecursionError" for d s
  proof (cases d)
    case 0
    then show ?thesis by simp
  next
    case (Suc d1)
    show ?thesis
    proof (cases "d1 < 3")
      case True
      then show ?thesis unfolding Suc by (simp add: rs)
    next
      case False
      then show ?thesis unfolding Suc
        by (simp add: rs no_globals_reduced_globalsettings[OF ng(2)])
    qed
  qed
  have f: "\<forall>d. parseString d bare_sim (VStr ''{setting:x}'') = Inl RecursionError" using p by simp
  have g: "\<forall>d s. parseString d bare_sim (VStr s) = Inl RecursionError" using p by simp
  have h: "\<forall>d s. parseString d ?gen (VStr s) = Inl RecursionError" using q by simp
  show ?thesis by (intro conjI) (fact a b c d e f g h)+
qed


subsection \<open>Parsing the same string twice\<close>

lemma chain_lookup:
  "dicts_of chain_sets chain_globals GlobalSetting ''x'' = Some (VStr ''{globalsetting:a}'')"
  "dicts_of chain_sets chain_globals GlobalSetting ''a'' = Some (VStr ''{globalsetting:'')"
  "dicts_of chain_sets chain_globals GlobalSetting ''c'' = Some (VStr ''{globalsetting:x}c}'')"
  by (simp_all add: dicts_of_def globalsettings_dict_def chain_globals_def)

lemma chain_fullmatch:
  "fullmatch ''{globalsetting:x}c}'' = None"
  "fullmatch ''{globalsetting:a}c}'' = None"
  "fullmatch ''{globalsetting:c}'' = Some (GlobalSetting, ''c'')"
  by (simp_all add: fullmatch_def match_tag_def strip_prefix_def name_and_rest_def)

lemma chain_match:
  "match_tag ''{globalsetting:x}c}'' = Some (GlobalSetting, ''x'', ''c}'')"
  "match_tag ''{globalsetting:a}c}'' = Some (GlobalSetting, ''a'', ''c}'')"
  "match_tag ''c}'' = None" "match_tag ''}'' = None"
  by (simp_all add: match_tag_def strip_prefix_def name_and_rest_def)

lemma chain_substitute:
  "substitute (dicts_of chain_sets chain_globals) ''{globalsetting:x}c}'' = ''{globalsetting:a}c}''"
  "substitute (dicts_of chain_sets chain_globals) ''{globalsetting:a}c}'' = ''{globalsetting:c}''"
proof -
  have r: "substitute (dicts_of chain_sets chain_globals) ''c}'' = ''c}''"
    by (simp add: chain_match)
  show "substitute (dicts_of chain_sets chain_globals) ''{globalsetting:x}c}'' = ''{globalsetting:a}c}''"
    by (simp only: substitute.simps chain_match option.case prod.case chain_lookup py_str.simps r
          append.simps)
  show "substitute (dicts_of chain_sets chain_globals) ''{globalsetting:a}c}'' = ''{globalsetting:c}''"
    by (simp only: substitute.simps chain_match option.case prod.case chain_lookup py_str.simps r
          append.simps)
qed

lemma chain_sim_fields:
  "raw_settings (chain_sim st) = Some chain_sets" "chain_sets \<noteq> []"
  "raw_globalsettings (chain_sim st) = Some chain_globals" "chain_globals \<noteq> []"
  "parser_recursion_stack (chain_sim st) = st"
  "(chain_sim st)\<lparr>parser_recursion_stack := st'\<rparr> = chain_sim st'"
  by (simp_all add: chain_sim_def chain_sets_def chain_globals_def)

lemma chain_step:
  assumes "3 \<le> d"
  shows "parseString (Suc d) (chain_sim st) (VStr s) =
     (case fullmatch s of
        Some (cat, nm) \<Rightarrow>
          (case dicts_of chain_sets chain_globals cat nm of
             Some v \<Rightarrow> Inr (v, chain_sim st)
           | None \<Rightarrow> Inr (VStr s, chain_sim st))
      | None \<Rightarrow>
          if substitute (dicts_of chain_sets chain_globals) s \<notin> set (st @ [s])
          then parseString d (chain_sim (st @ [s])) (VStr (substitute (dicts_of chain_sets chain_globals) s))
          else Inr (VStr (substitute (dicts_of chain_sets chain_globals) s), chain_sim []))"
proof -
  have nl: "\<not> d < 3" using assms by simp
  show ?thesis
    using parseString_generated[OF chain_sim_fields(1-4), where d = d and s = s and st1 = st]
    by (simp only: nl if_False chain_sim_fields(5,6))
qed

lemma chain_members:
  "''{globalsetting:a}c}'' \<notin> set [''{globalsetting:x}c}'']"
  "''{globalsetting:c}'' \<notin> set [''{globalsetting:x}c}'', ''{globalsetting:a}c}'']"
  "''{globalsetting:a}c}'' \<in> set [''{globalsetting:x}c}'', ''{globalsetting:a}c}'', ''{globalsetting:x}c}'']"
  by simp_all

lemma chain_fresh_generated:
  "generated_sets (folder chain_fresh) (user chain_fresh) = chain_sets"
  "generated_globals (folder chain_fresh) (user chain_fresh) = chain_zeros"
  by (simp_all add: chain_fresh_def chain_sim_def chain_sets_def chain_zeros_def generated_sets_def
        generated_globals_def append_set_def values_sets_def default_settings_def)

lemma chain_sim_reachable:
  fixes n :: nat
  defines "s1 \<equiv> chain_fresh\<lparr>raw_settings := Some chain_sets\<rparr>"
  defines "s2 \<equiv> s1\<lparr>raw_globalsettings := Some (set_global_value 0 (VStr ''{globalsetting:a}'') chain_zeros)\<rparr>"
  defines "s3 \<equiv> s2\<lparr>raw_globalsettings :=
      Some (set_global_value 1 (VStr ''{globalsetting:'') (set_global_value 0 (VStr ''{globalsetting:a}'') chain_zeros))\<rparr>"
  assumes n: "3 \<le> n"
  shows "settings_view (Suc (Suc n)) chain_fresh = Inr (map settings_dict chain_sets, s1)"
    and "setitem (Suc (Suc n)) s1 ''x'' (VStr ''{globalsetting:a}'') = Inr s2"
    and "setitem (Suc (Suc n)) s2 ''a'' (VStr ''{globalsetting:'') = Inr s3"
    and "setitem (Suc (Suc n)) s3 ''c'' (VStr ''{globalsetting:x}c}'') = Inr (chain_sim [])"
proof -
  have g: "generateSettings n chain_fresh = Inr s1"
    using settings_without_strings[OF chain_fresh_generated(1), of n] n
    by (simp add: chain_sets_def s1_def)
  have sp: "settings_property (Suc n) chain_fresh = Inr (Some chain_sets, s1)"
    using g by (simp add: chain_fresh_def py_not_def s1_def)
  show "settings_view (Suc (Suc n)) chain_fresh = Inr (map settings_dict chain_sets, s1)"
    using sp by (simp del: settings_property.simps)
  have e: "py_not (raw_globalsettings s1)" by (simp add: s1_def chain_fresh_def py_not_def)
  have gg: "generated_globals (folder s1) (user s1) = chain_zeros"
    using chain_fresh_generated(2) by (simp add: s1_def)
  have z: "chain_zeros \<noteq> []" "\<forall>g \<in> set chain_zeros. \<forall>s. g_value g \<noteq> VStr s"
    by (simp_all add: chain_zeros_def)
  have gp: "globalsettings_property (Suc n) s1 = Inr (Some chain_zeros, s1\<lparr>raw_globalsettings := Some chain_zeros\<rparr>)"
    using globals_without_strings(3)[OF e gg z, of "Suc n"] n by simp
  show "setitem (Suc (Suc n)) s1 ''x'' (VStr ''{globalsetting:a}'') = Inr s2"
    using gp by (simp add: setitem_def s2_def chain_zeros_def del: globalsettings_property.simps)
  show "setitem (Suc (Suc n)) s2 ''a'' (VStr ''{globalsetting:'') = Inr s3"
    by (simp add: setitem_def s2_def s3_def chain_zeros_def set_global_value_def py_not_def)
  show "setitem (Suc (Suc n)) s3 ''c'' (VStr ''{globalsetting:x}c}'') = Inr (chain_sim [])"
    by (simp add: setitem_def s1_def s2_def s3_def chain_zeros_def set_global_value_def py_not_def
          chain_fresh_def chain_sim_def chain_globals_def)
qed

text \<open>
  Claim C7 fails on the code. For the simulation \<open>chain_sim []\<close>, \<open>parseString\<close> on
  \<open>{globalsetting:x}c}\<close> returns this very string: the first pass gives
  \<open>{globalsetting:a}c}\<close>, the second \<open>{globalsetting:c}\<close>, which is one tag, whose value is
  returned. That return leaves the two strings of the chain in \<open>_parser_recursion_stack\<close>
  (only the return after a repeated string clears it). The same call on the simulation as
  the first call left it, with the same settings and global settings, finds the result of
  its first pass in the list and returns it: \<open>{globalsetting:a}c}\<close>, another string.
\<close>

theorem parseString_not_idempotent:
  "(\<forall>d. parseString (d + 6) (chain_sim []) (VStr ''{globalsetting:x}c}'') =
          Inr (VStr ''{globalsetting:x}c}'', chain_sim [''{globalsetting:x}c}'', ''{globalsetting:a}c}''])) \<and>
   (\<forall>d. parseString (d + 4) (chain_sim [''{globalsetting:x}c}'', ''{globalsetting:a}c}''])
            (VStr ''{globalsetting:x}c}'') =
          Inr (VStr ''{globalsetting:a}c}'', chain_sim []))"
proof (intro conjI allI)
  fix d :: nat
  have le: "3 \<le> d + 3" "3 \<le> Suc (d + 3)" "3 \<le> Suc (Suc (d + 3))" by simp_all
  have third: "parseString (Suc (d + 3)) (chain_sim [''{globalsetting:x}c}'', ''{globalsetting:a}c}''])
      (VStr ''{globalsetting:c}'') =
      Inr (VStr ''{globalsetting:x}c}'', chain_sim [''{globalsetting:x}c}'', ''{globalsetting:a}c}''])"
    by (simp only: chain_step[OF le(1)] chain_fullmatch option.case prod.case chain_lookup)
  have second: "parseString (Suc (Suc (d + 3))) (chain_sim [''{globalsetting:x}c}''])
      (VStr ''{globalsetting:a}c}'') =
      Inr (VStr ''{globalsetting:x}c}'', chain_sim [''{globalsetting:x}c}'', ''{globalsetting:a}c}''])"
    by (simp only: chain_step[OF le(2)] chain_fullmatch option.case chain_substitute chain_members
          not_False_eq_True if_True append.simps third)
  have first: "parseString (Suc (Suc (Suc (d + 3)))) (chain_sim []) (VStr ''{globalsetting:x}c}'') =
      Inr (VStr ''{globalsetting:x}c}'', chain_sim [''{globalsetting:x}c}'', ''{globalsetting:a}c}''])"
    by (simp only: chain_step[OF le(3)] chain_fullmatch option.case chain_substitute chain_members
          not_False_eq_True if_True append.simps second)
  have "d + 6 = Suc (Suc (Suc (d + 3)))" by simp
  then show "parseString (d + 6) (chain_sim []) (VStr ''{globalsetting:x}c}'') =
          Inr (VStr ''{globalsetting:x}c}'', chain_sim [''{globalsetting:x}c}'', ''{globalsetting:a}c}''])"
    using first by (simp only:)
next
  fix d :: nat
  have le: "3 \<le> d + 3" by simp
  have again: "parseString (Suc (d + 3)) (chain_sim [''{globalsetting:x}c}'', ''{globalsetting:a}c}''])
      (VStr ''{globalsetting:x}c}'') = Inr (VStr ''{globalsetting:a}c}'', chain_sim [])"
    by (simp only: chain_step[OF le] chain_fullmatch option.case chain_substitute chain_members
          not_True_eq_False if_False append.simps)
  have "d + 4 = Suc (d + 3)" by simp
  then show "parseString (d + 4) (chain_sim [''{globalsetting:x}c}'', ''{globalsetting:a}c}''])
            (VStr ''{globalsetting:x}c}'') = Inr (VStr ''{globalsetting:a}c}'', chain_sim [])"
    using again by (simp only:)
qed

end
